theory Spec2Isabelle
  imports
    Complex_Main
    "HOL-Library.Word"
    "HOL-Library.Signed_Division"
    "HOL-Library.Multiset"
begin

section \<open>Go values\<close>

text \<open>
  \<^verbatim>\<open>int64\<close> and \<^verbatim>\<open>uint64\<close> are both 64-bit words: Go converts between them without changing
  a bit, \<open>+\<close>, \<open>-\<close> and \<open>*\<close> wrap around, and only comparison and division read the sign
  (\<open>sint\<close>, \<open>\<le>s\<close>, \<open><s\<close>) or not (\<open>unat\<close>, \<open>\<le>\<close>, \<open><\<close>).  A run-time panic is a value of
  the model.
\<close>

type_synonym int64 = "64 word"
type_synonym uint64 = "64 word"

datatype panic = IntegerDivideByZero | IndexOutOfRange | TypeAssertionFailed

text \<open>
  Go's \<^verbatim>\<open>a / b\<close> on \<^verbatim>\<open>int64\<close>: the quotient is truncated towards zero, a zero divisor
  panics, and the one overflowing quotient (the least value divided by \<open>-1\<close>) wraps around.
\<close>

definition go_div64 :: "int64 \<Rightarrow> int64 \<Rightarrow> panic + int64" where
  "go_div64 a b =
     (if b = 0 then Inl IntegerDivideByZero else Inr (word_of_int (sint a sdiv sint b)))"


section \<open>The multisig wallet state (actors/builtin/multisig/multisig\_actor\_state.go)\<close>

text \<open>
  \<^verbatim>\<open>abi.TokenAmount\<close> and \<^verbatim>\<open>abi.ChainEpoch\<close> are declared outside the two source files.  The
  file converts the literal \<open>0\<close> and a \<^verbatim>\<open>uint64\<close> to a \<^verbatim>\<open>TokenAmount\<close>, converts a
  \<^verbatim>\<open>TokenAmount\<close> and an epoch to \<^verbatim>\<open>uint64\<close>, tests a \<^verbatim>\<open>TokenAmount\<close> for being negative
  and divides epochs: both are integer types, modelled as Go's signed 64-bit \<^verbatim>\<open>int64\<close>.
  The transaction tables of the state (\<^verbatim>\<open>NextTxnID\<close>, \<^verbatim>\<open>PendingTxns\<close>,
  \<^verbatim>\<open>PendingApprovals\<close>) are read by none of the functions below and live in the record's
  extension.
\<close>

record MultiSigActorState =
  InitialBalance :: int64
  StartEpoch :: int64
  UnlockDuration :: int64
  AuthorizedParties :: "int64 list"
  NumApprovalsThreshold :: int64

definition AmountLocked :: "'x MultiSigActorState_scheme \<Rightarrow> int64 \<Rightarrow> panic + int64" where
  "AmountLocked st elapsedEpoch =
     (if UnlockDuration st \<le>s elapsedEpoch then Inr 0
      else case go_div64 (UnlockDuration st - elapsedEpoch) (UnlockDuration st) of
             Inl p \<Rightarrow> Inl p
           | Inr lockedProportion \<Rightarrow> Inr (InitialBalance st * lockedProportion))"

definition isAuthorizedParty :: "'x MultiSigActorState_scheme \<Rightarrow> int64 \<Rightarrow> bool" where
  "isAuthorizedParty st party = (party \<in> set (AuthorizedParties st))"

text \<open>\<^verbatim>\<open>_hasAvailable\<close> (an Isabelle name cannot start with an underscore).\<close>

definition hasAvailable ::
  "'x MultiSigActorState_scheme \<Rightarrow> int64 \<Rightarrow> int64 \<Rightarrow> int64 \<Rightarrow> panic + bool" where
  "hasAvailable st currBalance amountToSpend currEpoch =
     (if amountToSpend <s 0 \<or> currBalance <s amountToSpend then Inr False
      else case AmountLocked st (currEpoch - StartEpoch st) of
             Inl p \<Rightarrow> Inl p
           | Inr locked \<Rightarrow>
               if currBalance - amountToSpend <s locked then Inr False else Inr True)"

definition wallet10 :: MultiSigActorState where
  "wallet10 = \<lparr>InitialBalance = 1000, StartEpoch = 0, UnlockDuration = 10,
               AuthorizedParties = [1, 2, 3], NumApprovalsThreshold = 2\<rparr>"


section \<open>Floating point\<close>

text \<open>
  The simulation computes with \<^verbatim>\<open>float64\<close> (and compares two \<^verbatim>\<open>float32\<close>).  The model does
  not fix what a rounded operation, \<^verbatim>\<open>math.Exp\<close> or \<^verbatim>\<open>math.Pow\<close> returns: the arithmetic is
  a parameter, a record of the operations the source uses over a type \<open>'f\<close> of floating
  point values.  \<open>f_of_rat\<close> is the value of a literal and of \<^verbatim>\<open>big.Rat.Float64\<close>,
  \<open>f_of_u64\<close> the conversion \<^verbatim>\<open>float64(k)\<close>; \<^verbatim>\<open>a > b\<close> is \<open>f_lt b a\<close>.
\<close>

record 'f float_ops =
  f_of_rat :: "rat \<Rightarrow> 'f"
  f_of_u64 :: "uint64 \<Rightarrow> 'f"
  f_neg :: "'f \<Rightarrow> 'f"
  f_add :: "'f \<Rightarrow> 'f \<Rightarrow> 'f"
  f_sub :: "'f \<Rightarrow> 'f \<Rightarrow> 'f"
  f_mul :: "'f \<Rightarrow> 'f \<Rightarrow> 'f"
  f_div :: "'f \<Rightarrow> 'f \<Rightarrow> 'f"
  f_exp :: "'f \<Rightarrow> 'f"
  f_pow :: "'f \<Rightarrow> 'f \<Rightarrow> 'f"
  f_lt :: "'f \<Rightarrow> 'f \<Rightarrow> bool"
  f_le :: "'f \<Rightarrow> 'f \<Rightarrow> bool"

text \<open>
  The results that IEEE 754 and the documentation of Go's \<^verbatim>\<open>math\<close> package fix exactly, as
  far as the development needs them: \<^verbatim>\<open>Exp(-0) = 1\<close>, \<^verbatim>\<open>Pow(x, 0) = 1\<close> for every \<open>x\<close>,
  \<open>2 \<le> 0\<close> is false, \<open>1 * 1 = 1\<close>, \<open>1 / 1 = 1\<close>, \<open>1 - 1 = 0\<close>, and \<open>a \<le> b\<close> excludes
  \<open>b < a\<close>.
\<close>

definition ieee_exact_cases :: "'f float_ops \<Rightarrow> bool" where
  "ieee_exact_cases F \<longleftrightarrow>
     f_exp F (f_neg F (f_of_rat F 0)) = f_of_rat F 1 \<and>
     (\<forall>x. f_pow F x (f_of_u64 F 0) = f_of_rat F 1) \<and>
     \<not> f_le F (f_of_rat F 2) (f_of_u64 F 0) \<and>
     f_mul F (f_of_rat F 1) (f_of_rat F 1) = f_of_rat F 1 \<and>
     f_div F (f_of_rat F 1) (f_of_rat F 1) = f_of_rat F 1 \<and>
     f_sub F (f_of_rat F 1) (f_of_rat F 1) = f_of_rat F 0 \<and>
     (\<forall>a b. f_le F a b \<longrightarrow> \<not> f_lt F b a)"

text \<open>
  An arithmetic to run the model on: the rationals, every operation exact, with a rational
  approximation of the exponential (\<open>1 + x + x\<^sup>2/2\<close> and its reciprocal) and powers with
  a natural exponent.
\<close>

definition rat_exp :: "rat \<Rightarrow> rat" where
  "rat_exp x = (if 0 \<le> x then 1 + x + x * x / 2 else 1 / (1 - x + x * x / 2))"

definition rat_arith :: "rat float_ops" where
  "rat_arith =
     \<lparr>f_of_rat = (\<lambda>q. q), f_of_u64 = (\<lambda>k. of_nat (unat k)), f_neg = (\<lambda>x. - x),
      f_add = (\<lambda>x y. x + y), f_sub = (\<lambda>x y. x - y), f_mul = (\<lambda>x y. x * y),
      f_div = (\<lambda>x y. x / y), f_exp = rat_exp, f_pow = (\<lambda>x y. x ^ nat \<lfloor>y\<rfloor>),
      f_lt = (\<lambda>x y. x < y), f_le = (\<lambda>x y. x \<le> y)\<rparr>"


section \<open>The leader-election sampler\<close>

text \<open>
  \<^verbatim>\<open>fact\<close> counts \<open>i\<close> up from \<open>2.0\<close> in steps of \<open>1.0\<close> while \<open>i <= k\<close>.  Nothing bounds the
  number of rounds for an arbitrary floating point \<open>k\<close> (the step is absorbed from
  \<open>2\<^sup>5\<^sup>3\<close> on), so the loop is a partial function: \<open>None\<close> is a run that never returns.
\<close>

partial_function (option) fact_loop :: "'f float_ops \<Rightarrow> 'f \<Rightarrow> 'f \<Rightarrow> 'f \<Rightarrow> 'f option" where
  "fact_loop F k fct i =
     (if f_le F i k then fact_loop F k (f_mul F fct i) (f_add F i (f_of_rat F 1))
      else Some fct)"

declare fact_loop.simps [code]

definition fact :: "'f float_ops \<Rightarrow> 'f \<Rightarrow> 'f option" where
  "fact F k = fact_loop F k (f_of_rat F 1) (f_of_rat F 2)"

definition poissonPMF :: "'f float_ops \<Rightarrow> 'f \<Rightarrow> uint64 \<Rightarrow> 'f option" where
  "poissonPMF F lambda k =
     (let fk = f_of_u64 F k in
      case fact F fk of
        None \<Rightarrow> None
      | Some d \<Rightarrow> Some (f_div F (f_mul F (f_exp F (f_neg F lambda)) (f_pow F lambda fk)) d))"

text \<open>The loop of \<^verbatim>\<open>WinCount\<close>: while \<open>rhs > h\<close>, count one more win and subtract its mass.\<close>

partial_function (option) WinCount_loop ::
  "'f float_ops \<Rightarrow> 'f \<Rightarrow> 'f \<Rightarrow> 'f \<Rightarrow> uint64 \<Rightarrow> uint64 option" where
  "WinCount_loop F lambda h rhs winCount =
     (if f_lt F h rhs
      then Option.bind (poissonPMF F lambda (winCount + 1))
             (\<lambda>p. WinCount_loop F lambda h (f_sub F rhs p) (winCount + 1))
      else Some winCount)"

declare WinCount_loop.simps [code]

text \<open>
  \<^verbatim>\<open>WinCount\<close> with the generator made explicit: \<open>draw\<close> is \<^verbatim>\<open>s.rnd.Float64\<close>, from a state of
  the generator to the value drawn and the next state.  The powers are \<^verbatim>\<open>big.Int\<close>s;
  \<^verbatim>\<open>SetFrac\<close> panics on a zero denominator, before anything is drawn.
\<close>

definition WinCount ::
  "'f float_ops \<Rightarrow> ('rng \<Rightarrow> 'f \<times> 'rng) \<Rightarrow> int \<Rightarrow> int \<Rightarrow> 'rng \<Rightarrow> (panic + uint64 \<times> 'rng) option" where
  "WinCount F draw minerPower totalPower r =
     (if totalPower = 0 then Some (Inl IntegerDivideByZero)
      else
        let lambda = f_of_rat F (Fract minerPower totalPower * 5);
            (h, r') = draw r
        in case poissonPMF F lambda 0 of
             None \<Rightarrow> None
           | Some p0 \<Rightarrow>
               (case WinCount_loop F lambda h (f_sub F (f_of_rat F 1) p0) 0 of
                  None \<Rightarrow> None
                | Some winCount \<Rightarrow> Some (Inr (winCount, r'))))"



section \<open>The simulation engine\<close>

subsection \<open>Values exchanged with the ledger\<close>

text \<open>
  Addresses are compared and passed on, never taken apart.  Token amounts and storage
  powers are \<^verbatim>\<open>big.Int\<close>s.  The parameters of a message are an \<^verbatim>\<open>interface{}\<close>: the two
  parameter structs the engine builds itself, \<^verbatim>\<open>nil\<close>, or a value of an agent's, kept
  opaque; likewise the value a message returns.
\<close>

type_synonym address = string
type_synonym TokenAmount = int
type_synonym StoragePower = int
type_synonym ExitCode = int
type_synonym MethodNum = nat
type_synonym ChainEpoch = int64

definition exitcode_Ok :: ExitCode where
  "exitcode_Ok = 0"

datatype params =
    NoParams
  | CreateMinerParams address address int
  | AwardBlockRewardParams address TokenAmount TokenAmount int64
  | OtherParams string

datatype ret = CreateMinerReturn address address | OtherReturn string

record 'f MinerAgentConfig =
  PrecommitRate :: 'f
  ProofType :: int
  StartingBalance :: TokenAmount

text \<open>
  A return handler is a closure.  The engine builds one kind, in \<^verbatim>\<open>createMiner\<close>, which
  captures the engine and the miner's configuration; every other handler belongs to an
  agent and is named by a number that the agent's code interprets.  An agent hands out
  messages whose handlers are its own (\<open>nat message\<close>); the engine's batch holds both kinds.
\<close>

datatype 'f returnHandler = CreateMinerHandler "'f MinerAgentConfig" | AgentHandler nat

record 'k message =
  From :: address
  To :: address
  Value :: TokenAmount
  Method :: MethodNum
  Params :: params
  ReturnHandler :: "'k option"

definition agentMessage :: "nat message \<Rightarrow> 'f returnHandler message" where
  "agentMessage m =
     \<lparr>From = From m, To = To m, Value = Value m, Method = Method m, Params = Params m,
      ReturnHandler = map_option AgentHandler (ReturnHandler m)\<rparr>"

text \<open>
  The log of the calls of \<^verbatim>\<open>ApplyMessage\<close>, in the order they are made: the call site (the
  loop over the batch, \<^verbatim>\<open>rewardMiner\<close>, or the cron call) and the five arguments.
\<close>

datatype call_site = BatchMessage | BlockReward | CronTick

datatype applied = Applied call_site address address TokenAmount MethodNum params

text \<open>
  What \<^verbatim>\<open>Tick\<close> can end with other than \<^verbatim>\<open>nil\<close>: an error of the ledger's or an agent's, passed
  on as it is; one of the three errors the engine formats itself, with the exit code, the
  failing message (for a message of the batch) and the ledger's log; the handler's
  complaint about the type of the returned value; or a panic.
\<close>

datatype 'f error =
    External string
  | MessageFailed ExitCode "'f returnHandler message" "string list"
  | RewardFailed ExitCode "string list"
  | CronFailed ExitCode "string list"
  | WrongReturnType ret
  | Panicked panic

subsection \<open>Ledger state read by the power table\<close>

record Claim =
  RawBytePower :: StoragePower
  QualityAdjPower :: StoragePower

text \<open>
  The power actor's state as \<^verbatim>\<open>ComputePowerTable\<close> reads it: the total, and the two lookups
  \<^verbatim>\<open>st.GetClaim(v.Store(), a)\<close> and \<^verbatim>\<open>st.MinerNominalPowerMeetsConsensusMinimum(v.Store(), a)\<close>
  as functions of the address.
\<close>

record power_State =
  TotalQualityAdjPower :: StoragePower
  GetClaim :: "address \<Rightarrow> string + Claim option"
  MinerNominalPowerMeetsConsensusMinimum :: "address \<Rightarrow> string + bool"

record reward_State =
  ThisEpochReward :: TokenAmount

record minerPowerTable =
  addr :: address
  qaPower :: StoragePower

record powerTable =
  blockReward :: TokenAmount
  totalQAPower :: StoragePower
  minerPower :: "minerPowerTable list"

subsection \<open>The engine and its collaborators\<close>

record 'f SimConfig =
  AccountCount :: int
  AccountInitialBalance :: TokenAmount
  Seed :: int64
  CreateMinerProbability :: 'f

text \<open>
  The fields of \<^verbatim>\<open>Sim\<close>.  \<open>Agents\<close> is a list of pointers; \<open>agentMem\<close>, which is not a field
  of the Go struct, is the memory behind them.  \<open>rnd\<close> is the state of the generator behind
  the pointer \<^verbatim>\<open>s.rnd\<close>, which the miner agents share.
\<close>

record ('vm, 'rng, 'agent, 'mem, 'f, 'stats) Sim =
  Config :: "'f SimConfig"
  Accounts :: "address list"
  Agents :: "'agent list"
  v :: 'vm
  rnd :: 'rng
  statsByMethod :: "'stats option"
  agentMem :: 'mem

text \<open>
  Everything the engine calls and the two source files do not define is a parameter: the
  floating point arithmetic, the addresses and method numbers of the \<^verbatim>\<open>builtin\<close> package,
  the generator of \<^verbatim>\<open>math/rand\<close>, the ledger (\<^verbatim>\<open>support/vm\<close>) and the agents.
  \<^item> \<open>Shuffle g n\<close> is the sequence of calls \<open>swap(i, j)\<close> that \<^verbatim>\<open>rnd.Shuffle(n, swap)\<close> makes.
  \<^item> \<open>ApplyMessage\<close> changes the ledger behind \<^verbatim>\<open>s.v\<close>: it returns the ledger after the call.
  \<^item> \<open>WithEpoch\<close> returns a ledger and an error, and \<^verbatim>\<open>Tick\<close> stores the first whatever the second.
  \<^item> An agent's \<open>Tick\<close> and handlers read the ledger and may change the agents' memory and
    draw from the generator.
  \<^item> \<open>MinerAgent_IDAddress mem a\<close> is \<open>None\<close> when the type assertion \<^verbatim>\<open>agent.(*MinerAgent)\<close>
    fails.
\<close>

record ('vm, 'rng, 'agent, 'mem, 'f, 'stats) env =
  arith :: "'f float_ops"
  SystemActorAddr :: address
  RewardActorAddr :: address
  CronActorAddr :: address
  StoragePowerActorAddr :: address
  MethodsPower_CreateMiner :: MethodNum
  MethodsCron_EpochTick :: MethodNum
  MethodsReward_AwardBlockReward :: MethodNum
  RegisteredSealProof_StackedDrg32GiBV1_1 :: int
  rand_New :: "int64 \<Rightarrow> 'rng"
  Float32 :: "'rng \<Rightarrow> 'f \<times> 'rng"
  Float64 :: "'rng \<Rightarrow> 'f \<times> 'rng"
  Shuffle :: "'rng \<Rightarrow> nat \<Rightarrow> (nat \<times> nat) list \<times> 'rng"
  NewCustomStoreVMWithSingletons :: 'vm
  CreateAccounts :: "'vm \<Rightarrow> int \<Rightarrow> TokenAmount \<Rightarrow> int64 \<Rightarrow> address list \<times> 'vm"
  ApplyMessage ::
    "'vm \<Rightarrow> address \<Rightarrow> address \<Rightarrow> TokenAmount \<Rightarrow> MethodNum \<Rightarrow> params \<Rightarrow> 'vm \<times> ret \<times> ExitCode"
  GetLogs :: "'vm \<Rightarrow> string list"
  GetCallStats :: "'vm \<Rightarrow> 'stats"
  GetEpoch :: "'vm \<Rightarrow> ChainEpoch"
  WithEpoch :: "'vm \<Rightarrow> ChainEpoch \<Rightarrow> 'vm \<times> string option"
  GetRewardState :: "'vm \<Rightarrow> string + reward_State"
  GetPowerState :: "'vm \<Rightarrow> string + power_State"
  agent_Tick ::
    "'agent \<Rightarrow> 'vm \<Rightarrow> 'mem \<Rightarrow> 'rng \<Rightarrow> (string + nat message list) \<times> 'mem \<times> 'rng"
  agent_handler ::
    "nat \<Rightarrow> 'vm \<Rightarrow> 'f returnHandler message \<Rightarrow> ret \<Rightarrow> 'mem \<Rightarrow> 'rng
      \<Rightarrow> string option \<times> 'mem \<times> 'rng"
  MinerAgent_IDAddress :: "'mem \<Rightarrow> 'agent \<Rightarrow> address option"
  NewMinerAgent ::
    "address \<Rightarrow> address \<Rightarrow> address \<Rightarrow> address \<Rightarrow> 'f MinerAgentConfig \<Rightarrow> 'mem \<Rightarrow> 'agent \<times> 'mem"
  noAgents :: 'mem

subsection \<open>NewSim\<close>

definition NewSim ::
  "('vm, 'rng, 'agent, 'mem, 'f, 'stats) env \<Rightarrow> 'f SimConfig
    \<Rightarrow> ('vm, 'rng, 'agent, 'mem, 'f, 'stats) Sim" where
  "NewSim env config =
     (case CreateAccounts env (NewCustomStoreVMWithSingletons env) (AccountCount config)
             (AccountInitialBalance config) (Seed config) of
        (accounts, vm) \<Rightarrow>
          \<lparr>Config = config, Accounts = accounts, Agents = [], v = vm,
           rnd = rand_New env (Seed config), statsByMethod = None,
           agentMem = noAgents env\<rparr>)"

subsection \<open>ComputePowerTable\<close>

fun ComputePowerTable_loop ::
  "('vm, 'rng, 'agent, 'mem, 'f, 'stats) env \<Rightarrow> 'mem \<Rightarrow> power_State \<Rightarrow> 'agent list
    \<Rightarrow> powerTable \<Rightarrow> powerTable \<times> 'f error option" where
  "ComputePowerTable_loop env mem st [] pt = (pt, None)"
| "ComputePowerTable_loop env mem st (agent # agents) pt =
     (case MinerAgent_IDAddress env mem agent of
        None \<Rightarrow> ComputePowerTable_loop env mem st agents pt
      | Some idAddress \<Rightarrow>
          (case GetClaim st idAddress of
             Inl err \<Rightarrow> (pt, Some (External err))
           | Inr None \<Rightarrow> ComputePowerTable_loop env mem st agents pt
           | Inr (Some claim) \<Rightarrow>
               (case MinerNominalPowerMeetsConsensusMinimum st idAddress of
                  Inl err \<Rightarrow> (pt, Some (External err))
                | Inr sufficient \<Rightarrow>
                    if sufficient
                    then ComputePowerTable_loop env mem st agents
                           (pt\<lparr>minerPower := minerPower pt @
                                 [\<lparr>addr = idAddress, qaPower = QualityAdjPower claim\<rparr>]\<rparr>)
                    else ComputePowerTable_loop env mem st agents pt)))"

definition emptyPowerTable :: powerTable where
  "emptyPowerTable = \<lparr>blockReward = 0, totalQAPower = 0, minerPower = []\<rparr>"

definition ComputePowerTable ::
  "('vm, 'rng, 'agent, 'mem, 'f, 'stats) env \<Rightarrow> 'vm \<Rightarrow> 'mem \<Rightarrow> 'agent list
    \<Rightarrow> powerTable \<times> 'f error option" where
  "ComputePowerTable env vm mem agents =
     (case GetRewardState env vm of
        Inl err \<Rightarrow> (emptyPowerTable, Some (External err))
      | Inr rwst \<Rightarrow>
          (case GetPowerState env vm of
             Inl err \<Rightarrow> (emptyPowerTable, Some (External err))
           | Inr st \<Rightarrow>
               ComputePowerTable_loop env mem st agents
                 (emptyPowerTable\<lparr>blockReward := ThisEpochReward rwst,
                                  totalQAPower := TotalQualityAdjPower st\<rparr>)))"


subsection \<open>Tick\<close>

text \<open>The loop over the agents: the batch grows by each agent's messages, in list order.\<close>

fun tickAgents ::
  "('vm, 'rng, 'agent, 'mem, 'f, 'stats) env \<Rightarrow> 'vm \<Rightarrow> 'agent list
    \<Rightarrow> 'f returnHandler message list \<Rightarrow> 'mem \<Rightarrow> 'rng
    \<Rightarrow> 'f error option \<times> 'f returnHandler message list \<times> 'mem \<times> 'rng" where
  "tickAgents env vm [] blockMessages mem g = (None, blockMessages, mem, g)"
| "tickAgents env vm (agent # agents) blockMessages mem g =
     (case agent_Tick env agent vm mem g of
        (Inl err, mem', g') \<Rightarrow> (Some (External err), blockMessages, mem', g')
      | (Inr msgs, mem', g') \<Rightarrow>
          tickAgents env vm agents (blockMessages @ map agentMessage msgs) mem' g')"

definition createMiner ::
  "('vm, 'rng, 'agent, 'mem, 'f, 'stats) env \<Rightarrow> ('vm, 'rng, 'agent, 'mem, 'f, 'stats) Sim
    \<Rightarrow> address \<Rightarrow> 'f MinerAgentConfig \<Rightarrow> 'f returnHandler message" where
  "createMiner env s owner cfg =
     \<lparr>From = owner, To = StoragePowerActorAddr env,
      Value = AccountInitialBalance (Config s),
      Method = MethodsPower_CreateMiner env,
      Params = CreateMinerParams owner owner (ProofType cfg),
      ReturnHandler = Some (CreateMinerHandler cfg)\<rparr>"

text \<open>The configuration that \<^verbatim>\<open>Tick\<close> gives a new miner.\<close>

definition newMinerConfig ::
  "('vm, 'rng, 'agent, 'mem, 'f, 'stats) env \<Rightarrow> ('vm, 'rng, 'agent, 'mem, 'f, 'stats) Sim
    \<Rightarrow> 'f MinerAgentConfig" where
  "newMinerConfig env s =
     \<lparr>PrecommitRate = f_of_rat (arith env) (5 / 2),
      ProofType = RegisteredSealProof_StackedDrg32GiBV1_1 env,
      StartingBalance = AccountInitialBalance (Config s)\<rparr>"


text \<open>
  ``Add at most 1 miner per epoch'': the conjunction of the source draws only when the
  first conjunct holds.  The result is the batch and the state of the generator.
\<close>

definition addMiner ::
  "('vm, 'rng, 'agent, 'mem, 'f, 'stats) env \<Rightarrow> ('vm, 'rng, 'agent, 'mem, 'f, 'stats) Sim
    \<Rightarrow> 'f returnHandler message list \<Rightarrow> 'f returnHandler message list \<times> 'rng" where
  "addMiner env s blockMessages =
     (if length (Agents s) < length (Accounts s)
      then (case Float32 env (rnd s) of
              (f, g) \<Rightarrow>
                if f_lt (arith env) f (CreateMinerProbability (Config s))
                then (blockMessages @
                        [createMiner env s (Accounts s ! length (Agents s))
                           (newMinerConfig env s)], g)
                else (blockMessages, g))
      else (blockMessages, rnd s))"

text \<open>The closure given to \<^verbatim>\<open>Shuffle\<close>, run on each pair; an index outside the slice panics.\<close>

fun swaps :: "(nat \<times> nat) list \<Rightarrow> 'a list \<Rightarrow> panic + 'a list" where
  "swaps [] xs = Inr xs"
| "swaps ((i, j) # ijs) xs =
     (if i < length xs \<and> j < length xs then swaps ijs (xs[i := xs ! j, j := xs ! i])
      else Inl IndexOutOfRange)"

text \<open>
  The agents' turn, the new miner and the shuffle: the batch that \<^verbatim>\<open>Tick\<close> will run, or the
  error (or panic) that ends the tick before anything is applied.
\<close>

definition produceBatch ::
  "('vm, 'rng, 'agent, 'mem, 'f, 'stats) env \<Rightarrow> ('vm, 'rng, 'agent, 'mem, 'f, 'stats) Sim
    \<Rightarrow> ('f error + 'f returnHandler message list) \<times> ('vm, 'rng, 'agent, 'mem, 'f, 'stats) Sim" where
  "produceBatch env s =
     (case tickAgents env (v s) (Agents s) [] (agentMem s) (rnd s) of
        (Some err, blockMessages, mem, g) \<Rightarrow> (Inl err, s\<lparr>rnd := g, agentMem := mem\<rparr>)
      | (None, blockMessages, mem, g) \<Rightarrow>
          (case addMiner env (s\<lparr>rnd := g, agentMem := mem\<rparr>) blockMessages of
             (blockMessages', g1) \<Rightarrow>
               (case Shuffle env g1 (length blockMessages') of
                  (ijs, g2) \<Rightarrow>
                    (case swaps ijs blockMessages' of
                       Inl p \<Rightarrow> (Inl (Panicked p), s\<lparr>rnd := g2, agentMem := mem\<rparr>)
                     | Inr shuffled \<Rightarrow> (Inr shuffled, s\<lparr>rnd := g2, agentMem := mem\<rparr>)))))"

text \<open>The messages that carry the handler of \<^verbatim>\<open>createMiner\<close>.\<close>

definition createsMiner :: "'f returnHandler message \<Rightarrow> bool" where
  "createsMiner msg =
     (case ReturnHandler msg of Some (CreateMinerHandler cfg) \<Rightarrow> True | _ \<Rightarrow> False)"

text \<open>
  A message's return handler.  The handler of \<^verbatim>\<open>createMiner\<close> returns an error when the
  returned value is not a \<^verbatim>\<open>CreateMinerReturn\<close>, then asserts the type of the parameters
  (a panic when it fails), builds the miner agent and appends it to \<open>Agents\<close>.
\<close>

definition callReturnHandler ::
  "('vm, 'rng, 'agent, 'mem, 'f, 'stats) env \<Rightarrow> ('vm, 'rng, 'agent, 'mem, 'f, 'stats) Sim
    \<Rightarrow> 'f returnHandler message \<Rightarrow> ret
    \<Rightarrow> 'f error option \<times> ('vm, 'rng, 'agent, 'mem, 'f, 'stats) Sim" where
  "callReturnHandler env s msg r =
     (case ReturnHandler msg of
        None \<Rightarrow> (None, s)
      | Some (CreateMinerHandler cfg) \<Rightarrow>
          (case r of
             CreateMinerReturn idAddress robustAddress \<Rightarrow>
               (case Params msg of
                  CreateMinerParams owner worker sealProof \<Rightarrow>
                    (case NewMinerAgent env owner worker idAddress robustAddress cfg
                            (agentMem s) of
                       (miner, mem) \<Rightarrow>
                         (None, s\<lparr>Agents := Agents s @ [miner], agentMem := mem\<rparr>))
                | _ \<Rightarrow> (Some (Panicked TypeAssertionFailed), s))
           | _ \<Rightarrow> (Some (WrongReturnType r), s))
      | Some (AgentHandler k) \<Rightarrow>
          (case agent_handler env k (v s) msg r (agentMem s) (rnd s) of
             (err, mem, g) \<Rightarrow> (map_option External err, s\<lparr>rnd := g, agentMem := mem\<rparr>)))"

text \<open>
  ``Run messages'': each message of the batch in turn.  The result is the error (if any),
  the engine at that point and the calls of \<^verbatim>\<open>ApplyMessage\<close> made.
\<close>

definition batchCall :: "'k message \<Rightarrow> applied" where
  "batchCall msg = Applied BatchMessage (From msg) (To msg) (Value msg) (Method msg) (Params msg)"

fun runMessages ::
  "('vm, 'rng, 'agent, 'mem, 'f, 'stats) env \<Rightarrow> ('vm, 'rng, 'agent, 'mem, 'f, 'stats) Sim
    \<Rightarrow> 'f returnHandler message list
    \<Rightarrow> 'f error option \<times> ('vm, 'rng, 'agent, 'mem, 'f, 'stats) Sim \<times> applied list" where
  "runMessages env s [] = (None, s, [])"
| "runMessages env s (msg # msgs) =
     (case ApplyMessage env (v s) (From msg) (To msg) (Value msg) (Method msg) (Params msg) of
        (vm, r, code) \<Rightarrow>
          if code \<noteq> exitcode_Ok
          then (Some (MessageFailed code msg (GetLogs env vm)), s\<lparr>v := vm\<rparr>, [batchCall msg])
          else (case callReturnHandler env (s\<lparr>v := vm\<rparr>) msg r of
                  (Some err, s1) \<Rightarrow> (Some err, s1, [batchCall msg])
                | (None, s1) \<Rightarrow>
                    (case runMessages env s1 msgs of
                       (e, s2, calls) \<Rightarrow> (e, s2, batchCall msg # calls))))"

definition rewardCall ::
  "('vm, 'rng, 'agent, 'mem, 'f, 'stats) env \<Rightarrow> address \<Rightarrow> uint64 \<Rightarrow> applied" where
  "rewardCall env a wins =
     Applied BlockReward (SystemActorAddr env) (RewardActorAddr env) 0
       (MethodsReward_AwardBlockReward env) (AwardBlockRewardParams a 0 0 wins)"

definition rewardMiner ::
  "('vm, 'rng, 'agent, 'mem, 'f, 'stats) env \<Rightarrow> ('vm, 'rng, 'agent, 'mem, 'f, 'stats) Sim
    \<Rightarrow> address \<Rightarrow> uint64
    \<Rightarrow> 'f error option \<times> ('vm, 'rng, 'agent, 'mem, 'f, 'stats) Sim \<times> applied list" where
  "rewardMiner env s a wins =
     (if wins < 1 then (None, s, [])
      else (case ApplyMessage env (v s) (SystemActorAddr env) (RewardActorAddr env) 0
                   (MethodsReward_AwardBlockReward env) (AwardBlockRewardParams a 0 0 wins) of
              (vm, r, code) \<Rightarrow>
                (if code \<noteq> exitcode_Ok then Some (RewardFailed code (GetLogs env vm)) else None,
                 s\<lparr>v := vm\<rparr>, [rewardCall env a wins])))"

text \<open>
  ``Apply block rewards'': the loop over the entries of the power table.  It returns
  nothing when a \<^verbatim>\<open>WinCount\<close> never returns.
\<close>

fun applyBlockRewards ::
  "('vm, 'rng, 'agent, 'mem, 'f, 'stats) env \<Rightarrow> powerTable
    \<Rightarrow> ('vm, 'rng, 'agent, 'mem, 'f, 'stats) Sim \<Rightarrow> minerPowerTable list
    \<Rightarrow> ('f error option \<times> ('vm, 'rng, 'agent, 'mem, 'f, 'stats) Sim \<times> applied list) option" where
  "applyBlockRewards env pt s [] = Some (None, s, [])"
| "applyBlockRewards env pt s (miner # miners) =
     (if 0 < totalQAPower pt
      then (case WinCount (arith env) (Float64 env) (qaPower miner) (totalQAPower pt) (rnd s) of
              None \<Rightarrow> None
            | Some (Inl p) \<Rightarrow> Some (Some (Panicked p), s, [])
            | Some (Inr (wins, g)) \<Rightarrow>
                (case rewardMiner env (s\<lparr>rnd := g\<rparr>) (addr miner) wins of
                   (Some err, s1, calls) \<Rightarrow> Some (Some err, s1, calls)
                 | (None, s1, calls) \<Rightarrow>
                     (case applyBlockRewards env pt s1 miners of
                        None \<Rightarrow> None
                      | Some (e, s2, calls') \<Rightarrow> Some (e, s2, calls @ calls'))))
      else applyBlockRewards env pt s miners)"

definition cronCall :: "('vm, 'rng, 'agent, 'mem, 'f, 'stats) env \<Rightarrow> applied" where
  "cronCall env =
     Applied CronTick (SystemActorAddr env) (CronActorAddr env) 0 (MethodsCron_EpochTick env)
       NoParams"

text \<open>``Run cron'', ``store last stats'' and the step to the next epoch.\<close>

definition endEpoch ::
  "('vm, 'rng, 'agent, 'mem, 'f, 'stats) env \<Rightarrow> ('vm, 'rng, 'agent, 'mem, 'f, 'stats) Sim
    \<Rightarrow> 'f error option \<times> ('vm, 'rng, 'agent, 'mem, 'f, 'stats) Sim \<times> applied list" where
  "endEpoch env s =
     (case ApplyMessage env (v s) (SystemActorAddr env) (CronActorAddr env) 0
             (MethodsCron_EpochTick env) NoParams of
        (vm, r, code) \<Rightarrow>
          if code \<noteq> exitcode_Ok
          then (Some (CronFailed code (GetLogs env vm)), s\<lparr>v := vm\<rparr>, [cronCall env])
          else (case WithEpoch env vm (GetEpoch env vm + 1) of
                  (vm', err) \<Rightarrow>
                    (map_option External err,
                     s\<lparr>v := vm', statsByMethod := Some (GetCallStats env vm)\<rparr>,
                     [cronCall env])))"

text \<open>
  \<^verbatim>\<open>Tick\<close>: the value returned (\<open>None\<close> for \<^verbatim>\<open>nil\<close>), the engine as the call leaves it, and the
  calls of \<^verbatim>\<open>ApplyMessage\<close> it made, in order.
\<close>

definition Tick ::
  "('vm, 'rng, 'agent, 'mem, 'f, 'stats) env \<Rightarrow> ('vm, 'rng, 'agent, 'mem, 'f, 'stats) Sim
    \<Rightarrow> ('f error option \<times> ('vm, 'rng, 'agent, 'mem, 'f, 'stats) Sim \<times> applied list) option" where
  "Tick env s =
     (case ComputePowerTable env (v s) (agentMem s) (Agents s) of
        (pt, Some err) \<Rightarrow> Some (Some err, s, [])
      | (pt, None) \<Rightarrow>
          (case produceBatch env s of
             (Inl err, s1) \<Rightarrow> Some (Some err, s1, [])
           | (Inr blockMessages, s1) \<Rightarrow>
               (case runMessages env s1 blockMessages of
                  (Some err, s2, calls) \<Rightarrow> Some (Some err, s2, calls)
                | (None, s2, calls) \<Rightarrow>
                    (case applyBlockRewards env pt s2 (minerPower pt) of
                       None \<Rightarrow> None
                     | Some (Some err, s3, calls') \<Rightarrow> Some (Some err, s3, calls @ calls')
                     | Some (None, s3, calls') \<Rightarrow>
                         (case endEpoch env s3 of
                            (e, s4, calls'') \<Rightarrow> Some (e, s4, calls @ calls' @ calls''))))))"



subsection \<open>Two runs\<close>





section \<open>A small world to run the engine in\<close>

text \<open>
  A ledger, a generator and agents simple enough to compute with.  The ledger counts the
  calls, rejects method \<open>13\<close> (exit code \<open>16\<close>, one more line in the log and nothing else
  changed), and registers a miner with power \<open>1\<close> for every \<^verbatim>\<open>CreateMiner\<close>.  The generator
  is a position in a fixed sequence.  Every agent is a miner named by its address and sends
  one message per tick; the agent \<open>''bad''\<close> fails instead, and the agent \<open>''rogue''\<close> sends
  method \<open>13\<close>.  The agents' memory counts what they did.
\<close>

record toy_vm =
  vm_epoch :: int64
  vm_miners :: "address list"
  vm_logs :: "string list"
  vm_calls :: nat

definition toy_ApplyMessage ::
  "toy_vm \<Rightarrow> address \<Rightarrow> address \<Rightarrow> TokenAmount \<Rightarrow> MethodNum \<Rightarrow> params \<Rightarrow> toy_vm \<times> ret \<times> ExitCode" where
  "toy_ApplyMessage vm sender recipient val method ps =
     (if method = 13
      then (vm\<lparr>vm_logs := vm_logs vm @ [''rejected''], vm_calls := Suc (vm_calls vm)\<rparr>,
            OtherReturn [], 16)
      else (case ps of
              CreateMinerParams owner worker sealProof \<Rightarrow>
                (vm\<lparr>vm_miners := vm_miners vm @ [''m'' @ owner], vm_calls := Suc (vm_calls vm)\<rparr>,
                 CreateMinerReturn (''m'' @ owner) (''r'' @ owner), 0)
            | _ \<Rightarrow> (vm\<lparr>vm_calls := Suc (vm_calls vm)\<rparr>, OtherReturn [], 0)))"

definition toy_power_State :: "toy_vm \<Rightarrow> power_State" where
  "toy_power_State vm =
     \<lparr>TotalQualityAdjPower = int (length (vm_miners vm)),
      GetClaim = (\<lambda>a. Inr (if a \<in> set (vm_miners vm)
                            then Some \<lparr>RawBytePower = 1, QualityAdjPower = 1\<rparr> else None)),
      MinerNominalPowerMeetsConsensusMinimum = (\<lambda>a. Inr True)\<rparr>"

definition unit_draws :: "nat \<Rightarrow> rat" where
  "unit_draws n = Fract (int ((n * 7 + 3) mod 10)) 10"

definition toy_Float :: "nat \<Rightarrow> rat \<times> nat" where
  "toy_Float n = (unit_draws n, Suc n)"

definition toy_Shuffle :: "nat \<Rightarrow> nat \<Rightarrow> (nat \<times> nat) list \<times> nat" where
  "toy_Shuffle g n = (map (\<lambda>i. (i, g mod Suc i)) (rev [1..<n]), g + n)"

definition toy_message :: "address \<Rightarrow> nat message" where
  "toy_message a =
     \<lparr>From = a, To = ''power'', Value = 0, Method = (if a = ''rogue'' then 13 else 7),
      Params = OtherParams a, ReturnHandler = Some 0\<rparr>"

definition toy_agent_Tick ::
  "address \<Rightarrow> toy_vm \<Rightarrow> nat \<Rightarrow> nat \<Rightarrow> (string + nat message list) \<times> nat \<times> nat" where
  "toy_agent_Tick a vm mem g =
     (if a = ''bad'' then (Inl ''agent failed'', mem, g)
      else (Inr [toy_message a], Suc mem, g))"

definition toy ::
  "(toy_vm, nat, address, nat, rat, nat) env" where
  "toy =
     \<lparr>arith = rat_arith,
      SystemActorAddr = ''system'', RewardActorAddr = ''reward'', CronActorAddr = ''cron'',
      StoragePowerActorAddr = ''power'',
      MethodsPower_CreateMiner = 2, MethodsCron_EpochTick = 2,
      MethodsReward_AwardBlockReward = 2, RegisteredSealProof_StackedDrg32GiBV1_1 = 8,
      rand_New = unat, Float32 = toy_Float, Float64 = toy_Float, Shuffle = toy_Shuffle,
      NewCustomStoreVMWithSingletons =
        \<lparr>vm_epoch = 0, vm_miners = [], vm_logs = [], vm_calls = 0\<rparr>,
      CreateAccounts = (\<lambda>vm n balance seed. (take (nat n) [''a0'', ''a1'', ''a2'', ''a3''], vm)),
      ApplyMessage = toy_ApplyMessage,
      GetLogs = vm_logs, GetCallStats = vm_calls, GetEpoch = vm_epoch,
      WithEpoch = (\<lambda>vm e. (vm\<lparr>vm_epoch := e\<rparr>, None)),
      GetRewardState = (\<lambda>vm. Inr \<lparr>ThisEpochReward = 100\<rparr>),
      GetPowerState = (\<lambda>vm. Inr (toy_power_State vm)),
      agent_Tick = toy_agent_Tick,
      agent_handler = (\<lambda>k vm msg r mem g. (None, Suc mem, g)),
      MinerAgent_IDAddress = (\<lambda>mem a. Some a),
      NewMinerAgent = (\<lambda>owner worker idAddress robustAddress cfg mem. (idAddress, mem)),
      noAgents = 0\<rparr>"

definition toy_config :: "rat SimConfig" where
  "toy_config =
     \<lparr>AccountCount = 3, AccountInitialBalance = 1000, Seed = 42, CreateMinerProbability = 1\<rparr>"


text \<open>
  The engine that \<^verbatim>\<open>NewSim\<close> builds, the engine after its first tick, and two engines
  with three agents: one whose second agent fails, one whose batch holds a message that
  the ledger rejects.
\<close>

definition sim0 :: "(toy_vm, nat, address, nat, rat, nat) Sim" where
  "sim0 = NewSim toy toy_config"

definition sim1 :: "(toy_vm, nat, address, nat, rat, nat) Sim" where
  "sim1 =
     \<lparr>Config = toy_config, Accounts = [''a0'', ''a1'', ''a2''], Agents = [''ma0''],
      v = \<lparr>vm_epoch = 1, vm_miners = [''ma0''], vm_logs = [], vm_calls = 2\<rparr>,
      rnd = 44, statsByMethod = Some 2, agentMem = 0\<rparr>"

definition sim_bad :: "(toy_vm, nat, address, nat, rat, nat) Sim" where
  "sim_bad = sim0\<lparr>Agents := [''ma0'', ''bad'', ''x'']\<rparr>"


definition sim2 :: "(toy_vm, nat, address, nat, rat, nat) Sim" where
  "sim2 =
     \<lparr>Config = toy_config, Accounts = [''a0'', ''a1'', ''a2''], Agents = [''ma0'', ''ma1''],
      v = \<lparr>vm_epoch = 2, vm_miners = [''ma0'', ''ma1''], vm_logs = [], vm_calls = 6\<rparr>,
      rnd = 48, statsByMethod = Some 6, agentMem = 2\<rparr>"

definition calls2 :: "applied list" where
  "calls2 =
     [Applied BatchMessage ''ma0'' ''power'' 0 7 (OtherParams ''ma0''),
      Applied BatchMessage ''a1'' ''power'' 1000 2 (CreateMinerParams ''a1'' ''a1'' 8),
      Applied BlockReward ''system'' ''reward'' 0 2 (AwardBlockRewardParams ''ma0'' 0 0 2),
      Applied CronTick ''system'' ''cron'' 0 2 NoParams]"

section \<open>Properties of the wallet state\<close>

lemma sint_sub_nowrap:
  fixes a b :: int64
  assumes "0 \<le> sint b" "sint b \<le> sint a"
  shows "sint (a - b) = sint a - sint b"
proof -
  have "sint a < 2 ^ 63" using sint_lt [of a] by simp
  with assms have "- (2 ^ 63) \<le> sint a - sint b" "sint a - sint b < 2 ^ 63" by auto
  then show ?thesis
    by (simp add: sint_word_diff signed_take_bit_int_eq_self)
qed

lemma go_div64_small:
  fixes a b :: int64
  assumes "0 \<le> sint a" "sint a < sint b"
  shows "go_div64 a b = Inr 0"
proof -
  have "b \<noteq> 0" using assms by auto
  moreover have "sint a sdiv sint b = 0"
    using assms by (simp add: signed_divide_int_def)
  ultimately show ?thesis by (simp add: go_div64_def)
qed

lemma go_div64_self:
  fixes b :: int64
  assumes "b \<noteq> 0"
  shows "go_div64 b b = Inr 1"
proof -
  have "sint b \<noteq> 0" using assms by (simp add: signed_eq_0_iff)
  then have "sint b sdiv sint b = 1"
    by (simp add: signed_divide_int_def sgn_mult_self_eq)
  then show ?thesis using assms by (simp add: go_div64_def)
qed

text \<open>
  C9.  For a state with \<open>UnlockDuration \<ge> 1\<close>: at every elapsed epoch from \<open>1\<close> up to (not
  including) the unlock duration the quotient of the two epoch counts is \<open>0\<close> and
  \<open>AmountLocked\<close> returns \<open>0\<close>; at elapsed epoch \<open>0\<close> it returns the whole initial balance;
  and from the unlock duration on it returns \<open>0\<close>.
\<close>

theorem AmountLocked_truncates:
  assumes "1 \<le>s UnlockDuration st"
  shows "(\<forall>e. 1 \<le>s e \<and> e <s UnlockDuration st \<longrightarrow>
            go_div64 (UnlockDuration st - e) (UnlockDuration st) = Inr 0 \<and>
            AmountLocked st e = Inr 0)
       \<and> AmountLocked st 0 = Inr (InitialBalance st)
       \<and> (\<forall>e. UnlockDuration st \<le>s e \<longrightarrow> AmountLocked st e = Inr 0)"
proof (intro conjI allI impI)
  fix e assume e: "1 \<le>s e \<and> e <s UnlockDuration st"
  then have b: "1 \<le> sint e" "sint e < sint (UnlockDuration st)"
    by (simp_all add: word_sle_eq word_sless_alt)
  then have d: "sint (UnlockDuration st - e) = sint (UnlockDuration st) - sint e"
    by (intro sint_sub_nowrap) simp_all
  show q: "go_div64 (UnlockDuration st - e) (UnlockDuration st) = Inr 0"
    by (rule go_div64_small) (use b d in simp_all)
  have "\<not> UnlockDuration st \<le>s e" using b by (simp add: word_sle_eq)
  with q show "AmountLocked st e = Inr 0" by (simp add: AmountLocked_def)
next
  have p: "1 \<le> sint (UnlockDuration st)" using assms by (simp add: word_sle_eq)
  then have nz: "UnlockDuration st \<noteq> 0" by auto
  have "\<not> UnlockDuration st \<le>s 0" using p by (simp add: word_sle_eq)
  then show "AmountLocked st 0 = Inr (InitialBalance st)"
    by (simp add: AmountLocked_def go_div64_self [OF nz])
next
  fix e assume "UnlockDuration st \<le>s e"
  then show "AmountLocked st e = Inr 0" by (simp add: AmountLocked_def)
qed

theorem AmountLocked_truncates_witness:
  "1 \<le>s UnlockDuration wallet10
   \<and> AmountLocked wallet10 1 = Inr 0 \<and> AmountLocked wallet10 9 = Inr 0
   \<and> AmountLocked wallet10 0 = Inr 1000
   \<and> AmountLocked wallet10 10 = Inr 0 \<and> AmountLocked wallet10 25 = Inr 0"
proof -
  have h: "1 \<le>s UnlockDuration wallet10" by (simp add: wallet10_def word_sle_eq word_sless_alt)
  note t = AmountLocked_truncates [OF h]
  have "(1::int64) \<le>s 1 \<and> (1::int64) <s UnlockDuration wallet10" by (simp add: wallet10_def word_sle_eq word_sless_alt)
  with t have a: "AmountLocked wallet10 1 = Inr 0" by blast
  have "(1::int64) \<le>s 9 \<and> (9::int64) <s UnlockDuration wallet10" by (simp add: wallet10_def word_sle_eq word_sless_alt)
  with t have b: "AmountLocked wallet10 9 = Inr 0" by blast
  from t have c: "AmountLocked wallet10 0 = Inr 1000" by (simp add: wallet10_def word_sle_eq word_sless_alt)
  have "UnlockDuration wallet10 \<le>s 10" by (simp add: wallet10_def word_sle_eq word_sless_alt)
  with t have d: "AmountLocked wallet10 10 = Inr 0" by blast
  have "UnlockDuration wallet10 \<le>s 25" by (simp add: wallet10_def word_sle_eq word_sless_alt)
  with t have e: "AmountLocked wallet10 25 = Inr 0" by blast
  from h a b c d e show ?thesis by simp
qed

text \<open>
  C10.  \<open>_hasAvailable\<close> returns \<open>true\<close> exactly when the amount to spend is not negative,
  it does not exceed the current balance, and what is left of the balance (as an integer:
  under the first two conditions the subtraction does not wrap) is at least the amount
  that \<open>AmountLocked\<close> returns for the epochs elapsed since \<open>StartEpoch\<close>.
\<close>

theorem hasAvailable_iff:
  "hasAvailable st currBalance amountToSpend currEpoch = Inr True \<longleftrightarrow>
     0 \<le> sint amountToSpend \<and> sint amountToSpend \<le> sint currBalance \<and>
     (\<exists>locked. AmountLocked st (currEpoch - StartEpoch st) = Inr locked \<and>
        sint locked \<le> sint currBalance - sint amountToSpend)"
proof (cases "amountToSpend <s 0 \<or> currBalance <s amountToSpend")
  case True
  then show ?thesis by (auto simp: hasAvailable_def word_sless_alt)
next
  case False
  then have g: "0 \<le> sint amountToSpend" "sint amountToSpend \<le> sint currBalance"
    by (simp_all add: word_sless_alt)
  have d: "sint (currBalance - amountToSpend) = sint currBalance - sint amountToSpend"
    using g by (rule sint_sub_nowrap)
  show ?thesis
    using False g d
    by (cases "AmountLocked st (currEpoch - StartEpoch st)")
       (auto simp: hasAvailable_def word_sless_alt)
qed

section \<open>Properties of the sampler\<close>

lemma rat_arith_exact: "ieee_exact_cases rat_arith"
  by (simp add: ieee_exact_cases_def rat_arith_def rat_exp_def)

lemma fact_zero:
  assumes "ieee_exact_cases F"
  shows "fact F (f_of_u64 F 0) = Some (f_of_rat F 1)"
  using assms unfolding fact_def ieee_exact_cases_def
  by (subst fact_loop.simps) simp

lemma poissonPMF_zero:
  assumes "ieee_exact_cases F"
  shows "poissonPMF F (f_of_rat F 0) 0 = Some (f_of_rat F 1)"
  using assms fact_zero [OF assms] unfolding poissonPMF_def ieee_exact_cases_def
  by simp

text \<open>
  C8.  With a miner power of \<open>0\<close> and a positive total power the rate is \<open>0\<close>, the mass at
  \<open>0\<close> is \<open>1\<close>, the loop starts from \<open>1 - 1 = 0\<close>, which exceeds no draw \<open>h \<ge> 0\<close> (\<open>h = 0\<close>
  included), and \<open>WinCount\<close> returns \<open>0\<close> after its one draw, for every floating point
  arithmetic that has the exact cases above.
\<close>

theorem WinCount_zero_power:
  assumes "ieee_exact_cases F" and "0 < totalPower" and "draw g = (h, g')"
    and "f_le F (f_of_rat F 0) h"
  shows "f_of_rat F (Fract 0 totalPower * 5) = f_of_rat F 0
       \<and> poissonPMF F (f_of_rat F 0) 0 = Some (f_of_rat F 1)
       \<and> WinCount_loop F (f_of_rat F 0) h
            (f_sub F (f_of_rat F 1) (f_of_rat F 1)) 0 = Some 0
       \<and> WinCount F draw 0 totalPower g = Some (Inr (0, g'))"
proof -
  have l: "f_of_rat F (Fract 0 totalPower * 5) = f_of_rat F 0"
    by (simp add: rat_number_collapse)
  have sub: "f_sub F (f_of_rat F 1) (f_of_rat F 1) = f_of_rat F 0"
    using assms(1) unfolding ieee_exact_cases_def by blast
  have "\<not> f_lt F h (f_of_rat F 0)"
    using assms(1,4) unfolding ieee_exact_cases_def by blast
  then have loop: "WinCount_loop F (f_of_rat F 0) h (f_of_rat F 0) 0 = Some 0"
    by (subst WinCount_loop.simps) simp
  have "WinCount F draw 0 totalPower g = Some (Inr (0, g'))"
    using assms(2,3) by (simp add: WinCount_def l poissonPMF_zero [OF assms(1)] sub loop)
  with l sub loop poissonPMF_zero [OF assms(1)] show ?thesis by simp
qed

theorem WinCount_zero_power_witness:
  "ieee_exact_cases rat_arith \<and> (0::int) < 7 \<and> toy_Float 1 = (0, 2)
   \<and> f_le rat_arith (f_of_rat rat_arith 0) 0
   \<and> WinCount rat_arith toy_Float 0 7 1 = Some (Inr (0, 2))"
proof -
  have d: "toy_Float 1 = (0, 2)"
    by (simp add: toy_Float_def unit_draws_def rat_number_collapse)
  have z: "f_le rat_arith (f_of_rat rat_arith 0) 0" by (simp add: rat_arith_def)
  show ?thesis
    using WinCount_zero_power [where F = rat_arith and draw = toy_Float and g = 1
        and h = 0 and g' = 2 and totalPower = 7] d z rat_arith_exact
    by simp
qed


section \<open>Properties of a tick\<close>

subsection \<open>The phases\<close>


lemma runMessages_calls:
  "runMessages env s msgs = (e, s', calls) \<Longrightarrow>
     calls = map batchCall (take (length calls) msgs) \<and> (e = None \<longrightarrow> length calls = length msgs)"
  by (induction msgs arbitrary: s e s' calls) (auto split: prod.splits option.splits if_splits)

lemma runMessages_ok_calls:
  "runMessages env s msgs = (None, s', calls) \<Longrightarrow> calls = map batchCall msgs"
  by (induction msgs arbitrary: s s' calls) (auto split: prod.splits option.splits if_splits)


lemma tickAgents_error:
  assumes "tickAgents env vm pre acc mem g = (None, msgs, mem1, g1)"
    and "agent_Tick env agent vm mem1 g1 = (Inl err, mem2, g2)"
  shows "tickAgents env vm (pre @ agent # post) acc mem g = (Some (External err), msgs, mem2, g2)"
  using assms
  by (induction pre arbitrary: acc mem g) (auto split: prod.splits sum.splits)

lemma rewardMiner_calls:
  "rewardMiner env s a wins = (e, s', calls) \<Longrightarrow> c \<in> set calls \<Longrightarrow>
     1 \<le> wins \<and> c = rewardCall env a wins"
proof (cases "wins < 1")
  case True
  then show "rewardMiner env s a wins = (e, s', calls) \<Longrightarrow> c \<in> set calls \<Longrightarrow> ?thesis"
    by (simp add: rewardMiner_def)
next
  case False
  then have "1 \<le> wins" by (simp only: not_less)
  then show "rewardMiner env s a wins = (e, s', calls) \<Longrightarrow> c \<in> set calls \<Longrightarrow> ?thesis"
    using False by (auto simp: rewardMiner_def split: prod.splits)
qed

lemma applyBlockRewards_calls:
  "applyBlockRewards env pt s miners = Some (e, s', calls) \<Longrightarrow> c \<in> set calls \<Longrightarrow>
     \<exists>m \<in> set miners. \<exists>wins g g'.
        0 < totalQAPower pt \<and>
        WinCount (arith env) (Float64 env) (qaPower m) (totalQAPower pt) g = Some (Inr (wins, g')) \<and>
        1 \<le> wins \<and> c = rewardCall env (addr m) wins"
proof (induction miners arbitrary: s e s' calls)
  case Nil
  then show ?case by simp
next
  case (Cons miner miners)
  show ?case
  proof (cases "0 < totalQAPower pt")
    case False
    with Cons.prems have "applyBlockRewards env pt s miners = Some (e, s', calls)" by simp
    from Cons.IH [OF this Cons.prems(2)] show ?thesis by auto
  next
    case True
    with Cons.prems obtain wins g where
      w: "WinCount (arith env) (Float64 env) (qaPower miner) (totalQAPower pt) (rnd s)
            = Some (Inr (wins, g))"
      by (auto split: option.splits sum.splits)
    obtain e1 s1 calls1 where r: "rewardMiner env (s\<lparr>rnd := g\<rparr>) (addr miner) wins = (e1, s1, calls1)"
      by (cases "rewardMiner env (s\<lparr>rnd := g\<rparr>) (addr miner) wins") auto
    show ?thesis
    proof (cases e1)
      case (Some err)
      with Cons.prems(1) True w r have "calls = calls1" by simp
      with Cons.prems(2) rewardMiner_calls [OF r] True w show ?thesis by fastforce
    next
      case None
      with Cons.prems(1) True w r obtain calls' where
        rest: "applyBlockRewards env pt s1 miners = Some (e, s', calls')"
        and c: "calls = calls1 @ calls'"
        by (auto split: option.splits)
      from Cons.prems(2) c consider "c \<in> set calls1" | "c \<in> set calls'" by auto
      then show ?thesis
      proof cases
        case 1
        with rewardMiner_calls [OF r] True w show ?thesis by fastforce
      next
        case 2
        from Cons.IH [OF rest 2] show ?thesis by auto
      qed
    qed
  qed
qed

lemma ComputePowerTable_loop_entries:
  "ComputePowerTable_loop env mem st agents pt0 = (pt, e) \<Longrightarrow>
     totalQAPower pt = totalQAPower pt0 \<and> blockReward pt = blockReward pt0 \<and>
     (\<forall>m \<in> set (minerPower pt). m \<in> set (minerPower pt0) \<or>
        (\<exists>agent \<in> set agents. \<exists>claim.
           MinerAgent_IDAddress env mem agent = Some (addr m) \<and>
           GetClaim st (addr m) = Inr (Some claim) \<and>
           qaPower m = QualityAdjPower claim \<and>
           MinerNominalPowerMeetsConsensusMinimum st (addr m) = Inr True))"
proof (induction agents arbitrary: pt0)
  case Nil
  then show ?case by simp
next
  case (Cons agent agents)
  show ?case
  proof (cases "MinerAgent_IDAddress env mem agent")
    case None
    with Cons.prems have "ComputePowerTable_loop env mem st agents pt0 = (pt, e)" by simp
    from Cons.IH [OF this] show ?thesis by auto
  next
    case (Some a)
    show ?thesis
    proof (cases "GetClaim st a")
      case (Inl err)
      with Some Cons.prems show ?thesis by auto
    next
      case (Inr found)
      show ?thesis
      proof (cases found)
        case None
        with Some Inr Cons.prems have "ComputePowerTable_loop env mem st agents pt0 = (pt, e)"
          by simp
        from Cons.IH [OF this] show ?thesis by auto
      next
        case (Some claim)
        note claim = this
        show ?thesis
        proof (cases "MinerNominalPowerMeetsConsensusMinimum st a")
          case (Inl err)
          with \<open>MinerAgent_IDAddress env mem agent = Some a\<close> Inr claim Cons.prems
          show ?thesis by auto
        next
          case (Inr sufficient)
          show ?thesis
          proof (cases sufficient)
            case False
            with \<open>MinerAgent_IDAddress env mem agent = Some a\<close> \<open>GetClaim st a = Inr found\<close>
              claim Inr Cons.prems
            have "ComputePowerTable_loop env mem st agents pt0 = (pt, e)" by simp
            from Cons.IH [OF this] show ?thesis by auto
          next
            case True
            with \<open>MinerAgent_IDAddress env mem agent = Some a\<close> \<open>GetClaim st a = Inr found\<close>
              claim Inr Cons.prems
            have "ComputePowerTable_loop env mem st agents
                    (pt0\<lparr>minerPower := minerPower pt0 @
                           [\<lparr>addr = a, qaPower = QualityAdjPower claim\<rparr>]\<rparr>) = (pt, e)"
              by simp
            from Cons.IH [OF this]
            show ?thesis
              using \<open>MinerAgent_IDAddress env mem agent = Some a\<close> \<open>GetClaim st a = Inr found\<close>
                claim Inr True
              by auto
          qed
        qed
      qed
    qed
  qed
qed

lemma ComputePowerTable_entries:
  assumes "ComputePowerTable env vm mem agents = (pt, None)"
  shows "\<exists>st. GetPowerState env vm = Inr st \<and> totalQAPower pt = TotalQualityAdjPower st \<and>
     (\<forall>m \<in> set (minerPower pt).
        \<exists>agent \<in> set agents. \<exists>claim.
           MinerAgent_IDAddress env mem agent = Some (addr m) \<and>
           GetClaim st (addr m) = Inr (Some claim) \<and>
           qaPower m = QualityAdjPower claim \<and>
           MinerNominalPowerMeetsConsensusMinimum st (addr m) = Inr True)"
proof -
  from assms obtain rwst where rw: "GetRewardState env vm = Inr rwst"
    by (cases "GetRewardState env vm") (auto simp: ComputePowerTable_def)
  from assms rw obtain st where st: "GetPowerState env vm = Inr st"
    by (cases "GetPowerState env vm") (auto simp: ComputePowerTable_def)
  from assms rw st
  have loop: "ComputePowerTable_loop env mem st agents
                 (emptyPowerTable\<lparr>blockReward := ThisEpochReward rwst,
                                  totalQAPower := TotalQualityAdjPower st\<rparr>) = (pt, None)"
    by (simp add: ComputePowerTable_def)
  from ComputePowerTable_loop_entries [OF loop] st show ?thesis
    by (auto simp: emptyPowerTable_def)
qed

lemma Tick_phases:
  assumes "Tick env s = Some (e, s', calls)"
  obtains
    (table) pt err where
      "ComputePowerTable env (v s) (agentMem s) (Agents s) = (pt, Some err)"
      "e = Some err" "s' = s" "calls = []"
  | (produce) pt err where
      "ComputePowerTable env (v s) (agentMem s) (Agents s) = (pt, None)"
      "produceBatch env s = (Inl err, s')" "e = Some err" "calls = []"
  | (batch) pt blockMessages s1 err where
      "ComputePowerTable env (v s) (agentMem s) (Agents s) = (pt, None)"
      "produceBatch env s = (Inr blockMessages, s1)"
      "runMessages env s1 blockMessages = (Some err, s', calls)" "e = Some err"
  | (rewards) pt blockMessages s1 s2 batchCalls rewardCalls err where
      "ComputePowerTable env (v s) (agentMem s) (Agents s) = (pt, None)"
      "produceBatch env s = (Inr blockMessages, s1)"
      "runMessages env s1 blockMessages = (None, s2, batchCalls)"
      "applyBlockRewards env pt s2 (minerPower pt) = Some (Some err, s', rewardCalls)"
      "e = Some err" "calls = batchCalls @ rewardCalls"
  | (cron) pt blockMessages s1 s2 s3 batchCalls rewardCalls cronCalls where
      "ComputePowerTable env (v s) (agentMem s) (Agents s) = (pt, None)"
      "produceBatch env s = (Inr blockMessages, s1)"
      "runMessages env s1 blockMessages = (None, s2, batchCalls)"
      "applyBlockRewards env pt s2 (minerPower pt) = Some (None, s3, rewardCalls)"
      "endEpoch env s3 = (e, s', cronCalls)"
      "calls = batchCalls @ rewardCalls @ cronCalls"
  using assms unfolding Tick_def
  by (auto split: prod.splits option.splits sum.splits)

lemma runMessages_sites:
  "runMessages env s msgs = (e, s', calls) \<Longrightarrow> c \<in> set calls \<Longrightarrow> \<exists>m \<in> set msgs. c = batchCall m"
proof -
  assume r: "runMessages env s msgs = (e, s', calls)" and c: "c \<in> set calls"
  from runMessages_calls [OF r] have "calls = map batchCall (take (length calls) msgs)" by simp
  with c have "c \<in> batchCall ` set (take (length calls) msgs)" by (metis list.set_map)
  then show ?thesis using set_take_subset [of "length calls" msgs] by blast
qed

lemma batchCall_site: "Applied BlockReward a b c d p \<noteq> batchCall m"
  by (simp add: batchCall_def)

lemma endEpoch_calls: "endEpoch env s = (e, s', calls) \<Longrightarrow> calls = [cronCall env]"
  by (auto simp: endEpoch_def split: prod.splits if_splits)

lemma endEpoch_ok:
  assumes "endEpoch env s = (None, s', calls)"
  shows "\<exists>vm r. ApplyMessage env (v s) (SystemActorAddr env) (CronActorAddr env) 0
                   (MethodsCron_EpochTick env) NoParams = (vm, r, exitcode_Ok)
               \<and> WithEpoch env vm (GetEpoch env vm + 1) = (v s', None)
               \<and> statsByMethod s' = Some (GetCallStats env vm)"
  using assms by (auto simp: endEpoch_def split: prod.splits if_splits)

lemma agentMessage_not_create: "\<not> createsMiner (agentMessage m)"
  by (cases "ReturnHandler m") (simp_all add: createsMiner_def agentMessage_def)

lemma tickAgents_creates:
  "tickAgents env vm agents acc mem g = (e, msgs, mem', g') \<Longrightarrow>
     filter createsMiner msgs = filter createsMiner acc"
proof (induction agents arbitrary: acc mem g)
  case Nil
  then show ?case by simp
next
  case (Cons agent agents)
  obtain res mem1 g1 where t: "agent_Tick env agent vm mem g = (res, mem1, g1)"
    by (cases "agent_Tick env agent vm mem g") auto
  show ?case
  proof (cases res)
    case (Inl err)
    with Cons.prems t show ?thesis by simp
  next
    case (Inr ms)
    with Cons.prems t
    have "tickAgents env vm agents (acc @ map agentMessage ms) mem1 g1 = (e, msgs, mem', g')"
      by simp
    from Cons.IH [OF this] show ?thesis
      by (simp add: filter_empty_conv agentMessage_not_create)
  qed
qed

lemma createMiner_creates: "createsMiner (createMiner env s owner cfg)"
  by (simp add: createsMiner_def createMiner_def)

lemma swaps_mset: "swaps ijs xs = Inr ys \<Longrightarrow> mset ys = mset xs"
proof (induction ijs arbitrary: xs)
  case Nil
  then show ?case by simp
next
  case (Cons ij ijs)
  obtain i j where ij: "ij = (i, j)" by (cases ij)
  with Cons.prems have r: "i < length xs" "j < length xs"
    and s: "swaps ijs (xs[i := xs ! j, j := xs ! i]) = Inr ys"
    by (auto split: if_splits)
  from Cons.IH [OF s] have "mset ys = mset (xs[i := xs ! j, j := xs ! i])" .
  also have "\<dots> = mset xs" using r by (simp add: mset_swap)
  finally show ?case .
qed

lemma swaps_filter_length:
  assumes "swaps ijs xs = Inr ys"
  shows "length (filter P ys) = length (filter P xs)"
proof -
  have "mset (filter P ys) = mset (filter P xs)"
    using swaps_mset [OF assms] by (simp add: mset_filter)
  then show ?thesis by (metis size_mset)
qed

lemma produceBatch_fields:
  "produceBatch env s = (res, s1) \<Longrightarrow>
     Config s1 = Config s \<and> Accounts s1 = Accounts s \<and> Agents s1 = Agents s \<and> v s1 = v s \<and>
     statsByMethod s1 = statsByMethod s"
  by (auto simp: produceBatch_def split: prod.splits option.splits sum.splits)

lemma produceBatch_creates:
  assumes "produceBatch env s = (Inr blockMessages, s1)"
  shows "\<exists>msgs mem g. tickAgents env (v s) (Agents s) [] (agentMem s) (rnd s) = (None, msgs, mem, g)
           \<and> length (filter createsMiner blockMessages) =
               (if length (Agents s) < length (Accounts s) \<and>
                   f_lt (arith env) (fst (Float32 env g)) (CreateMinerProbability (Config s))
                then 1 else 0)"
proof -
  from assms obtain msgs mem g where
    t: "tickAgents env (v s) (Agents s) [] (agentMem s) (rnd s) = (None, msgs, mem, g)"
    by (auto simp: produceBatch_def split: prod.splits option.splits)
  obtain msgs' g1 where a: "addMiner env (s\<lparr>rnd := g, agentMem := mem\<rparr>) msgs = (msgs', g1)"
    by (cases "addMiner env (s\<lparr>rnd := g, agentMem := mem\<rparr>) msgs") auto
  obtain ijs g2 where sh: "Shuffle env g1 (length msgs') = (ijs, g2)"
    by (cases "Shuffle env g1 (length msgs')") auto
  from assms t a sh have sw: "swaps ijs msgs' = Inr blockMessages"
    by (auto simp: produceBatch_def split: sum.splits)
  from tickAgents_creates [OF t] have none: "filter createsMiner msgs = []" by simp
  have "length (filter createsMiner msgs') =
          (if length (Agents s) < length (Accounts s) \<and>
              f_lt (arith env) (fst (Float32 env g)) (CreateMinerProbability (Config s))
           then 1 else 0)"
    using a none
    by (auto simp: addMiner_def createMiner_creates split: if_splits prod.splits)
  with swaps_filter_length [OF sw, of createsMiner] t show ?thesis by auto
qed

lemma callReturnHandler_fields:
  "callReturnHandler env s msg r = (e, s') \<Longrightarrow>
     Config s' = Config s \<and> Accounts s' = Accounts s \<and> v s' = v s \<and>
     statsByMethod s' = statsByMethod s \<and>
     (\<exists>new. Agents s' = Agents s @ new \<and> length new \<le> (if createsMiner msg then 1 else 0))"
  by (auto simp: callReturnHandler_def createsMiner_def
           split: option.splits returnHandler.splits ret.splits params.splits prod.splits)

lemma runMessages_fields:
  "runMessages env s msgs = (e, s', calls) \<Longrightarrow>
     Config s' = Config s \<and> Accounts s' = Accounts s \<and> statsByMethod s' = statsByMethod s \<and>
     (\<exists>new. Agents s' = Agents s @ new \<and> length new \<le> length (filter createsMiner msgs))"
proof (induction msgs arbitrary: s e s' calls)
  case Nil
  then show ?case by simp
next
  case (Cons msg msgs)
  obtain vm r code where
    ap: "ApplyMessage env (v s) (From msg) (To msg) (Value msg) (Method msg) (Params msg)
           = (vm, r, code)"
    by (cases "ApplyMessage env (v s) (From msg) (To msg) (Value msg) (Method msg) (Params msg)")
       auto
  show ?case
  proof (cases "code \<noteq> exitcode_Ok")
    case True
    with Cons.prems ap show ?thesis by auto
  next
    case False
    obtain e1 s1 where h: "callReturnHandler env (s\<lparr>v := vm\<rparr>) msg r = (e1, s1)"
      by (cases "callReturnHandler env (s\<lparr>v := vm\<rparr>) msg r") auto
    from callReturnHandler_fields [OF h] obtain new1 where
      f1: "Config s1 = Config s" "Accounts s1 = Accounts s" "statsByMethod s1 = statsByMethod s"
      and a1: "Agents s1 = Agents s @ new1" "length new1 \<le> (if createsMiner msg then 1 else 0)"
      by auto
    show ?thesis
    proof (cases e1)
      case (Some err)
      with Cons.prems ap False h have "s' = s1" by simp
      with f1 a1 show ?thesis by (auto split: if_splits)
    next
      case None
      with Cons.prems ap False h obtain calls' where
        rest: "runMessages env s1 msgs = (e, s', calls')"
        by (auto split: prod.splits)
      from Cons.IH [OF rest] obtain new2 where
        f2: "Config s' = Config s1" "Accounts s' = Accounts s1"
            "statsByMethod s' = statsByMethod s1"
        and a2: "Agents s' = Agents s1 @ new2" "length new2 \<le> length (filter createsMiner msgs)"
        by auto
      have "Agents s' = Agents s @ (new1 @ new2)" using a1 a2 by simp
      moreover have "length (new1 @ new2) \<le> length (filter createsMiner (msg # msgs))"
        using a1 a2 by (auto split: if_splits)
      ultimately show ?thesis using f1 f2 by (metis)
    qed
  qed
qed

lemma rewardMiner_fields:
  "rewardMiner env s a wins = (e, s', calls) \<Longrightarrow>
     Config s' = Config s \<and> Accounts s' = Accounts s \<and> Agents s' = Agents s \<and>
     statsByMethod s' = statsByMethod s"
  by (auto simp: rewardMiner_def split: if_splits prod.splits)

lemma applyBlockRewards_fields:
  "applyBlockRewards env pt s miners = Some (e, s', calls) \<Longrightarrow>
     Config s' = Config s \<and> Accounts s' = Accounts s \<and> Agents s' = Agents s \<and>
     statsByMethod s' = statsByMethod s"
proof (induction miners arbitrary: s e s' calls)
  case Nil
  then show ?case by simp
next
  case (Cons miner miners)
  show ?case
  proof (cases "0 < totalQAPower pt")
    case False
    with Cons.prems have "applyBlockRewards env pt s miners = Some (e, s', calls)" by simp
    from Cons.IH [OF this] show ?thesis .
  next
    case True
    show ?thesis
    proof (cases "WinCount (arith env) (Float64 env) (qaPower miner) (totalQAPower pt) (rnd s)")
      case None
      with True Cons.prems show ?thesis by simp
    next
      case (Some w)
      show ?thesis
      proof (cases w)
        case (Inl p)
        with True Some Cons.prems show ?thesis by auto
      next
        case (Inr wg)
        obtain wins g where wg: "wg = (wins, g)" by (cases wg)
        obtain e1 s1 calls1 where
          r: "rewardMiner env (s\<lparr>rnd := g\<rparr>) (addr miner) wins = (e1, s1, calls1)"
          by (cases "rewardMiner env (s\<lparr>rnd := g\<rparr>) (addr miner) wins") auto
        from rewardMiner_fields [OF r]
        have f1: "Config s1 = Config s" "Accounts s1 = Accounts s" "Agents s1 = Agents s"
          "statsByMethod s1 = statsByMethod s" by simp_all
        show ?thesis
        proof (cases e1)
          case (Some err)
          with True \<open>WinCount (arith env) (Float64 env) (qaPower miner) (totalQAPower pt) (rnd s) = Some w\<close>
            Inr wg r Cons.prems
          have "s' = s1" by simp
          with f1 show ?thesis by simp
        next
          case None
          with True \<open>WinCount (arith env) (Float64 env) (qaPower miner) (totalQAPower pt) (rnd s) = Some w\<close>
            Inr wg r Cons.prems
          obtain calls' where "applyBlockRewards env pt s1 miners = Some (e, s', calls')"
            by (auto split: option.splits)
          from Cons.IH [OF this] f1 show ?thesis by simp
        qed
      qed
    qed
  qed
qed

lemma endEpoch_fields:
  "endEpoch env s = (e, s', calls) \<Longrightarrow>
     Config s' = Config s \<and> Accounts s' = Accounts s \<and> Agents s' = Agents s"
  by (auto simp: endEpoch_def split: if_splits prod.splits)

lemma Tick_agents:
  assumes "Tick env s = Some (e, s', calls)"
  shows "Accounts s' = Accounts s \<and> Config s' = Config s \<and>
         (Agents s' = Agents s \<or>
          (\<exists>miner msgs mem g. Agents s' = Agents s @ [miner] \<and>
             tickAgents env (v s) (Agents s) [] (agentMem s) (rnd s) = (None, msgs, mem, g) \<and>
             length (Agents s) < length (Accounts s) \<and>
             f_lt (arith env) (fst (Float32 env g)) (CreateMinerProbability (Config s))))"
proof -
  have key: "Accounts s' = Accounts s \<and> Config s' = Config s \<and>
      (Agents s' = Agents s \<or>
       (\<exists>blockMessages s1 new. produceBatch env s = (Inr blockMessages, s1) \<and>
          Agents s' = Agents s @ new \<and> length new \<le> length (filter createsMiner blockMessages)))"
    using assms
  proof (cases rule: Tick_phases)
    case (table pt err)
    then show ?thesis by simp
  next
    case (produce pt err)
    from produceBatch_fields [OF produce(2)] show ?thesis by simp
  next
    case (batch pt blockMessages s1 err)
    from produceBatch_fields [OF batch(2)] runMessages_fields [OF batch(3)] batch(2)
    show ?thesis by auto
  next
    case (rewards pt blockMessages s1 s2 batchCalls rewardCalls err)
    from produceBatch_fields [OF rewards(2)] runMessages_fields [OF rewards(3)]
      applyBlockRewards_fields [OF rewards(4)] rewards(2)
    show ?thesis by auto
  next
    case (cron pt blockMessages s1 s2 s3 batchCalls rewardCalls cronCalls)
    from produceBatch_fields [OF cron(2)] runMessages_fields [OF cron(3)]
      applyBlockRewards_fields [OF cron(4)] endEpoch_fields [OF cron(5)] cron(2)
    show ?thesis by auto
  qed
  show ?thesis
  proof (cases "Agents s' = Agents s")
    case True
    with key show ?thesis by simp
  next
    case False
    with key obtain blockMessages s1 new where
      pb: "produceBatch env s = (Inr blockMessages, s1)"
      and ag: "Agents s' = Agents s @ new"
      and len: "length new \<le> length (filter createsMiner blockMessages)"
      by blast
    from produceBatch_creates [OF pb] obtain msgs mem g where
      t: "tickAgents env (v s) (Agents s) [] (agentMem s) (rnd s) = (None, msgs, mem, g)"
      and c: "length (filter createsMiner blockMessages) =
               (if length (Agents s) < length (Accounts s) \<and>
                   f_lt (arith env) (fst (Float32 env g)) (CreateMinerProbability (Config s))
                then 1 else 0)"
      by blast
    from False ag have "new \<noteq> []" by auto
    with len c have cond: "length (Agents s) < length (Accounts s) \<and>
        f_lt (arith env) (fst (Float32 env g)) (CreateMinerProbability (Config s))"
      and l1: "length new = 1"
      by (auto split: if_splits simp: Suc_le_eq le_Suc_eq)
    from l1 obtain miner where "new = [miner]" by (cases new) auto
    with ag t cond key show ?thesis by auto
  qed
qed













subsection \<open>The small world, computed\<close>

lemma toy_second_tick: "Tick toy sim1 = Some (None, sim2, calls2)"
  by code_simp

lemma toy_table_sim1:
  "ComputePowerTable toy (v sim1) (agentMem sim1) (Agents sim1) =
     (\<lparr>blockReward = 100, totalQAPower = 1, minerPower = [\<lparr>addr = ''ma0'', qaPower = 1\<rparr>]\<rparr>,
      None)"
  by code_simp

lemma toy_table_empty:
  "ComputePowerTable toy (v sim0) (agentMem sim0) agents =
     (\<lparr>blockReward = 100, totalQAPower = 0, minerPower = []\<rparr>, None)"
proof -
  have "ComputePowerTable_loop toy 0
          (toy_power_State \<lparr>vm_epoch = 0, vm_miners = [], vm_logs = [], vm_calls = 0\<rparr>) agents pt
        = (pt, None)" for pt
    by (induction agents) (simp_all add: toy_def toy_power_State_def)
  then show ?thesis
    by (simp add: ComputePowerTable_def sim0_def NewSim_def toy_def toy_config_def
          emptyPowerTable_def toy_power_State_def)
qed

lemma toy_bad_prefix:
  "tickAgents toy (v sim_bad) [''ma0''] [] (agentMem sim_bad) (rnd sim_bad) =
     (None, [agentMessage (toy_message ''ma0'')], 1, 42)"
  by code_simp

lemma toy_bad_agent:
  "agent_Tick toy ''bad'' (v sim_bad) 1 42 = (Inl ''agent failed'', 1, 42)"
  by code_simp






subsection \<open>What a tick guarantees\<close>



text \<open>
  C7.  When the power table was built and an agent's \<open>Tick\<close> returns an error (the agents
  before it in the list having returned their messages), \<open>Tick\<close> returns that error at
  once: no call of \<open>ApplyMessage\<close> is made, and the list of agents, the accounts, the
  configuration, the ledger (so the epoch) and the stored statistics are the ones it
  started with.
\<close>

theorem agent_error_aborts_tick:
  assumes "ComputePowerTable env (v s) (agentMem s) (Agents s) = (pt, None)"
    and "Agents s = pre @ agent # post"
    and "tickAgents env (v s) pre [] (agentMem s) (rnd s) = (None, msgs, mem, g)"
    and "agent_Tick env agent (v s) mem g = (Inl err, mem', g')"
  shows "\<exists>s'. Tick env s = Some (Some (External err), s', [])
           \<and> Agents s' = Agents s \<and> Accounts s' = Accounts s \<and> Config s' = Config s
           \<and> v s' = v s \<and> GetEpoch env (v s') = GetEpoch env (v s)
           \<and> statsByMethod s' = statsByMethod s"
proof -
  have "tickAgents env (v s) (Agents s) [] (agentMem s) (rnd s)
          = (Some (External err), msgs, mem', g')"
    unfolding assms(2) by (rule tickAgents_error [OF assms(3,4)])
  then have "produceBatch env s = (Inl (External err), s\<lparr>rnd := g', agentMem := mem'\<rparr>)"
    by (simp add: produceBatch_def)
  then have "Tick env s = Some (Some (External err), s\<lparr>rnd := g', agentMem := mem'\<rparr>, [])"
    using assms(1) by (simp add: Tick_def)
  then show ?thesis by simp
qed

theorem agent_error_aborts_tick_witness:
  "Agents sim_bad = [''ma0''] @ ''bad'' # [''x'']
   \<and> agent_Tick toy ''bad'' (v sim_bad) 1 42 = (Inl ''agent failed'', 1, 42)
   \<and> (\<exists>s'. Tick toy sim_bad = Some (Some (External ''agent failed''), s', [])
           \<and> Agents s' = Agents sim_bad \<and> Accounts s' = Accounts sim_bad
           \<and> Config s' = Config sim_bad
           \<and> v s' = v sim_bad \<and> GetEpoch toy (v s') = GetEpoch toy (v sim_bad)
           \<and> statsByMethod s' = statsByMethod sim_bad)"
proof -
  have h1: "ComputePowerTable toy (v sim_bad) (agentMem sim_bad) (Agents sim_bad) =
              (\<lparr>blockReward = 100, totalQAPower = 0, minerPower = []\<rparr>, None)"
    using toy_table_empty [of "Agents sim_bad"] by (simp add: sim_bad_def)
  have h2: "Agents sim_bad = [''ma0''] @ ''bad'' # [''x'']" by (simp add: sim_bad_def)
  from h2 toy_bad_agent agent_error_aborts_tick [OF h1 h2 toy_bad_prefix toy_bad_agent]
  show ?thesis by (intro conjI)
qed

text \<open>
  C3.  Every call that \<open>rewardMiner\<close> makes in a tick is the reward call for an address
  \<open>a\<close> and a count \<open>wins\<close> such that: \<open>a\<close> is the ID address of a miner agent of the engine
  as the tick found it, the power actor's state in the ledger as the tick found it holds a
  claim for \<open>a\<close>, the nominal power of \<open>a\<close> meets the consensus minimum there, so that \<open>a\<close>
  with the claim's quality-adjusted power is an entry of the power table; the total
  quality-adjusted power of that state is positive; and \<open>wins \<ge> 1\<close> is what \<open>WinCount\<close> drew
  for the entry.  So no reward call is made for a producer that misses one of these.
\<close>

theorem rewards_need_claim_power_and_win:
  assumes "Tick env s = Some (e, s', calls)"
    and "Applied BlockReward sender recipient val method ps \<in> set calls"
  shows "\<exists>pt st agent a claim wins g g'.
           ComputePowerTable env (v s) (agentMem s) (Agents s) = (pt, None)
         \<and> GetPowerState env (v s) = Inr st
         \<and> agent \<in> set (Agents s)
         \<and> MinerAgent_IDAddress env (agentMem s) agent = Some a
         \<and> GetClaim st a = Inr (Some claim)
         \<and> MinerNominalPowerMeetsConsensusMinimum st a = Inr True
         \<and> \<lparr>addr = a, qaPower = QualityAdjPower claim\<rparr> \<in> set (minerPower pt)
         \<and> totalQAPower pt = TotalQualityAdjPower st \<and> 0 < TotalQualityAdjPower st
         \<and> WinCount (arith env) (Float64 env) (QualityAdjPower claim) (TotalQualityAdjPower st) g
             = Some (Inr (wins, g'))
         \<and> 1 \<le> wins
         \<and> Applied BlockReward sender recipient val method ps = rewardCall env a wins"
proof -
  let ?c = "Applied BlockReward sender recipient val method ps"
  note nb = batchCall_site
  have nc: "?c \<noteq> cronCall env" by (simp add: cronCall_def)
  have main: "\<exists>pt s2 e3 s3 rewardCalls.
      ComputePowerTable env (v s) (agentMem s) (Agents s) = (pt, None) \<and>
      applyBlockRewards env pt s2 (minerPower pt) = Some (e3, s3, rewardCalls) \<and>
      ?c \<in> set rewardCalls"
  using assms(1)
  proof (cases rule: Tick_phases)
    case (table pt err)
    with assms(2) show ?thesis by simp
  next
    case (produce pt err)
    with assms(2) show ?thesis by simp
  next
    case (batch pt blockMessages s1 err)
    from runMessages_sites [OF batch(3) assms(2)] nb show ?thesis by blast
  next
    case (rewards pt blockMessages s1 s2 batchCalls rewardCalls err)
    from assms(2) rewards(6) consider "?c \<in> set batchCalls" | "?c \<in> set rewardCalls" by auto
    then show ?thesis
    proof cases
      case 1
      from runMessages_sites [OF rewards(3) 1] nb show ?thesis by blast
    next
      case 2
      with rewards show ?thesis by blast
    qed
  next
    case (cron pt blockMessages s1 s2 s3 batchCalls rewardCalls cronCalls)
    from endEpoch_calls [OF cron(5)] have cc: "cronCalls = [cronCall env]" .
    from assms(2) cron(6) cc nc
    consider "?c \<in> set batchCalls" | "?c \<in> set rewardCalls" by auto
    then show ?thesis
    proof cases
      case 1
      from runMessages_sites [OF cron(3) 1] nb show ?thesis by blast
    next
      case 2
      with cron show ?thesis by blast
    qed
  qed
  then obtain pt s2 e3 s3 rewardCalls where
    pt: "ComputePowerTable env (v s) (agentMem s) (Agents s) = (pt, None)"
    and rw: "applyBlockRewards env pt s2 (minerPower pt) = Some (e3, s3, rewardCalls)"
    and c: "?c \<in> set rewardCalls"
    by blast
  from applyBlockRewards_calls [OF rw c] obtain m wins g g' where
    m: "m \<in> set (minerPower pt)" and pos: "0 < totalQAPower pt"
    and w: "WinCount (arith env) (Float64 env) (qaPower m) (totalQAPower pt) g = Some (Inr (wins, g'))"
    and w1: "1 \<le> wins" and ceq: "?c = rewardCall env (addr m) wins"
    by blast
  from ComputePowerTable_entries [OF pt] m obtain st agent claim where
    st: "GetPowerState env (v s) = Inr st" and tot: "totalQAPower pt = TotalQualityAdjPower st"
    and ag: "agent \<in> set (Agents s)"
    and id: "MinerAgent_IDAddress env (agentMem s) agent = Some (addr m)"
    and cl: "GetClaim st (addr m) = Inr (Some claim)"
    and qa: "qaPower m = QualityAdjPower claim"
    and suff: "MinerNominalPowerMeetsConsensusMinimum st (addr m) = Inr True"
    by blast
  have "\<lparr>addr = addr m, qaPower = QualityAdjPower claim\<rparr> = m" using qa by (cases m) simp
  with m have min: "\<lparr>addr = addr m, qaPower = QualityAdjPower claim\<rparr> \<in> set (minerPower pt)"
    by simp
  show ?thesis
    using pt st ag id cl suff min pos w w1 ceq tot qa
    by (rule_tac x = pt in exI, rule_tac x = st in exI, rule_tac x = agent in exI,
        rule_tac x = "addr m" in exI, rule_tac x = claim in exI, rule_tac x = wins in exI,
        rule_tac x = g in exI, rule_tac x = g' in exI) simp
qed

theorem rewards_need_claim_power_and_win_witness:
  "Tick toy sim1 = Some (None, sim2, calls2)
   \<and> Applied BlockReward ''system'' ''reward'' 0 2 (AwardBlockRewardParams ''ma0'' 0 0 2)
       \<in> set calls2
   \<and> (\<exists>pt st agent a claim wins g g'.
           ComputePowerTable toy (v sim1) (agentMem sim1) (Agents sim1) = (pt, None)
         \<and> GetPowerState toy (v sim1) = Inr st
         \<and> agent \<in> set (Agents sim1)
         \<and> MinerAgent_IDAddress toy (agentMem sim1) agent = Some a
         \<and> GetClaim st a = Inr (Some claim)
         \<and> MinerNominalPowerMeetsConsensusMinimum st a = Inr True
         \<and> \<lparr>addr = a, qaPower = QualityAdjPower claim\<rparr> \<in> set (minerPower pt)
         \<and> totalQAPower pt = TotalQualityAdjPower st \<and> 0 < TotalQualityAdjPower st
         \<and> WinCount (arith toy) (Float64 toy) (QualityAdjPower claim) (TotalQualityAdjPower st) g
             = Some (Inr (wins, g'))
         \<and> 1 \<le> wins
         \<and> Applied BlockReward ''system'' ''reward'' 0 2 (AwardBlockRewardParams ''ma0'' 0 0 2)
             = rewardCall toy a wins)"
proof -
  have h2: "Applied BlockReward ''system'' ''reward'' 0 2 (AwardBlockRewardParams ''ma0'' 0 0 2)
              \<in> set calls2"
    by (simp add: calls2_def)
  from toy_second_tick h2 rewards_need_claim_power_and_win [OF toy_second_tick h2]
  show ?thesis by (intro conjI)
qed

text \<open>
  C4.  In a tick that returns no error, the calls of \<open>ApplyMessage\<close> are: one for each
  message of the shuffled batch, in order; then the reward calls; then the cron call, which
  is the last call and occurs only there.  The cron call returned \<open>Ok\<close>, and the ledger
  that \<open>Tick\<close> leaves is the one \<open>WithEpoch\<close> made from the ledger the cron call returned:
  nothing is applied in between.
\<close>

theorem cron_is_last_call:
  assumes "Tick env s = Some (None, s', calls)"
  shows "\<exists>pt blockMessages s1 s2 s3 rewardCalls vm r.
           ComputePowerTable env (v s) (agentMem s) (Agents s) = (pt, None)
         \<and> produceBatch env s = (Inr blockMessages, s1)
         \<and> runMessages env s1 blockMessages = (None, s2, map batchCall blockMessages)
         \<and> applyBlockRewards env pt s2 (minerPower pt) = Some (None, s3, rewardCalls)
         \<and> (\<forall>c \<in> set rewardCalls. \<exists>a wins. c = rewardCall env a wins)
         \<and> calls = map batchCall blockMessages @ rewardCalls @ [cronCall env]
         \<and> last calls = cronCall env
         \<and> cronCall env \<notin> set (map batchCall blockMessages @ rewardCalls)
         \<and> ApplyMessage env (v s3) (SystemActorAddr env) (CronActorAddr env) 0
               (MethodsCron_EpochTick env) NoParams = (vm, r, exitcode_Ok)
         \<and> WithEpoch env vm (GetEpoch env vm + 1) = (v s', None)"
  using assms
proof (cases rule: Tick_phases)
  case (cron pt blockMessages s1 s2 s3 batchCalls rewardCalls cronCalls)
  from runMessages_ok_calls [OF cron(3)] have bc: "batchCalls = map batchCall blockMessages" .
  from endEpoch_calls [OF cron(5)] have cc: "cronCalls = [cronCall env]" .
  from endEpoch_ok [OF cron(5)] obtain vm r where
    ap: "ApplyMessage env (v s3) (SystemActorAddr env) (CronActorAddr env) 0
           (MethodsCron_EpochTick env) NoParams = (vm, r, exitcode_Ok)"
    and we: "WithEpoch env vm (GetEpoch env vm + 1) = (v s', None)"
    by blast
  have rc: "\<forall>c \<in> set rewardCalls. \<exists>a wins. c = rewardCall env a wins"
    using applyBlockRewards_calls [OF cron(4)] by blast
  have notin: "cronCall env \<notin> set (map batchCall blockMessages @ rewardCalls)"
    using rc by (auto simp: cronCall_def batchCall_def rewardCall_def)
  show ?thesis
    using cron(1,2,3,4) bc cc ap we rc notin cron(6)
    by (rule_tac x = pt in exI, rule_tac x = blockMessages in exI, rule_tac x = s1 in exI,
        rule_tac x = s2 in exI, rule_tac x = s3 in exI, rule_tac x = rewardCalls in exI,
        rule_tac x = vm in exI, rule_tac x = r in exI) simp
qed simp_all

theorem cron_is_last_call_witness:
  "Tick toy sim1 = Some (None, sim2, calls2)
   \<and> (\<exists>pt blockMessages s1 s2 s3 rewardCalls vm r.
           ComputePowerTable toy (v sim1) (agentMem sim1) (Agents sim1) = (pt, None)
         \<and> produceBatch toy sim1 = (Inr blockMessages, s1)
         \<and> runMessages toy s1 blockMessages = (None, s2, map batchCall blockMessages)
         \<and> applyBlockRewards toy pt s2 (minerPower pt) = Some (None, s3, rewardCalls)
         \<and> (\<forall>c \<in> set rewardCalls. \<exists>a wins. c = rewardCall toy a wins)
         \<and> calls2 = map batchCall blockMessages @ rewardCalls @ [cronCall toy]
         \<and> last calls2 = cronCall toy
         \<and> cronCall toy \<notin> set (map batchCall blockMessages @ rewardCalls)
         \<and> ApplyMessage toy (v s3) (SystemActorAddr toy) (CronActorAddr toy) 0
               (MethodsCron_EpochTick toy) NoParams = (vm, r, exitcode_Ok)
         \<and> WithEpoch toy vm (GetEpoch toy vm + 1) = (v sim2, None))"
  using toy_second_tick cron_is_last_call [OF toy_second_tick] by (intro conjI)

text \<open>
  C6.  The step that adds a miner: when there are fewer agents than accounts it draws one
  \<open>Float32\<close> (the generator moves on by that one draw) and appends the message of
  \<open>createMiner\<close> for the account at index \<open>length Agents\<close> exactly when the value drawn is
  below the configured probability; otherwise it draws nothing and appends nothing.  The
  message is sent from that account to the power actor, with the method \<open>CreateMiner\<close> and,
  as its value, the configured initial balance (the balance every account was created
  with).  A batch that \<open>Tick\<close> runs therefore holds one message with the handler that adds
  an agent when both conditions hold and none otherwise; and whatever \<open>Tick\<close> returns, the
  accounts are unchanged and the agents are the same or one more, the latter only when
  both conditions held.
\<close>

theorem at_most_one_miner_per_tick:
  "(length (Agents s) < length (Accounts s) \<longrightarrow>
      addMiner env s blockMessages =
        (if f_lt (arith env) (fst (Float32 env (rnd s))) (CreateMinerProbability (Config s))
         then blockMessages @
                [createMiner env s (Accounts s ! length (Agents s)) (newMinerConfig env s)]
         else blockMessages,
         snd (Float32 env (rnd s))))
   \<and> (\<not> length (Agents s) < length (Accounts s) \<longrightarrow>
        addMiner env s blockMessages = (blockMessages, rnd s))
   \<and> From (createMiner env s owner cfg) = owner
   \<and> To (createMiner env s owner cfg) = StoragePowerActorAddr env
   \<and> Method (createMiner env s owner cfg) = MethodsPower_CreateMiner env
   \<and> Value (createMiner env s owner cfg) = AccountInitialBalance (Config s)
   \<and> (\<forall>batch s1. produceBatch env s = (Inr batch, s1) \<longrightarrow>
        (\<exists>msgs mem g.
           tickAgents env (v s) (Agents s) [] (agentMem s) (rnd s) = (None, msgs, mem, g)
         \<and> length (filter createsMiner batch) =
             (if length (Agents s) < length (Accounts s) \<and>
                 f_lt (arith env) (fst (Float32 env g)) (CreateMinerProbability (Config s))
              then 1 else 0)))
   \<and> (\<forall>e s' calls. Tick env s = Some (e, s', calls) \<longrightarrow>
        Accounts s' = Accounts s \<and>
        (Agents s' = Agents s \<or>
         (\<exists>miner msgs mem g. Agents s' = Agents s @ [miner] \<and>
            tickAgents env (v s) (Agents s) [] (agentMem s) (rnd s) = (None, msgs, mem, g) \<and>
            length (Agents s) < length (Accounts s) \<and>
            f_lt (arith env) (fst (Float32 env g)) (CreateMinerProbability (Config s)))))"
proof (intro conjI impI allI)
  assume "length (Agents s) < length (Accounts s)"
  then show "addMiner env s blockMessages =
        (if f_lt (arith env) (fst (Float32 env (rnd s))) (CreateMinerProbability (Config s))
         then blockMessages @
                [createMiner env s (Accounts s ! length (Agents s)) (newMinerConfig env s)]
         else blockMessages,
         snd (Float32 env (rnd s)))"
    by (simp add: addMiner_def split: prod.splits)
next
  assume "\<not> length (Agents s) < length (Accounts s)"
  then show "addMiner env s blockMessages = (blockMessages, rnd s)"
    by (simp add: addMiner_def)
next
  show "From (createMiner env s owner cfg) = owner"
    and "To (createMiner env s owner cfg) = StoragePowerActorAddr env"
    and "Method (createMiner env s owner cfg) = MethodsPower_CreateMiner env"
    and "Value (createMiner env s owner cfg) = AccountInitialBalance (Config s)"
    by (simp_all add: createMiner_def)
next
  fix batch s1 assume "produceBatch env s = (Inr batch, s1)"
  then show "\<exists>msgs mem g.
           tickAgents env (v s) (Agents s) [] (agentMem s) (rnd s) = (None, msgs, mem, g)
         \<and> length (filter createsMiner batch) =
             (if length (Agents s) < length (Accounts s) \<and>
                 f_lt (arith env) (fst (Float32 env g)) (CreateMinerProbability (Config s))
              then 1 else 0)"
    by (rule produceBatch_creates)
next
  fix e s' calls assume t: "Tick env s = Some (e, s', calls)"
  from Tick_agents [OF t] show "Accounts s' = Accounts s" by simp
  from Tick_agents [OF t]
  show "Agents s' = Agents s \<or>
         (\<exists>miner msgs mem g. Agents s' = Agents s @ [miner] \<and>
            tickAgents env (v s) (Agents s) [] (agentMem s) (rnd s) = (None, msgs, mem, g) \<and>
            length (Agents s) < length (Accounts s) \<and>
            f_lt (arith env) (fst (Float32 env g)) (CreateMinerProbability (Config s)))"
    by simp
qed

theorem at_most_one_miner_per_tick_witness:
  "length (Agents sim1) < length (Accounts sim1)
   \<and> Float32 toy (rnd sim1) = (1 / 10, 45)
   \<and> addMiner toy sim1 [] = ([createMiner toy sim1 ''a1'' (newMinerConfig toy sim1)], 45)
   \<and> From (createMiner toy sim1 ''a1'' (newMinerConfig toy sim1)) = ''a1''
   \<and> Value (createMiner toy sim1 ''a1'' (newMinerConfig toy sim1)) = 1000
   \<and> Tick toy sim1 = Some (None, sim2, calls2)
   \<and> Accounts sim2 = Accounts sim1
   \<and> Agents sim2 = Agents sim1 @ [''ma1'']"
proof -
  note t = at_most_one_miner_per_tick
             [where env = toy and s = sim1 and blockMessages = "[]" and owner = "''a1''"
                and cfg = "newMinerConfig toy sim1"]
  have l: "length (Agents sim1) < length (Accounts sim1)" by (simp add: sim1_def)
  have d: "Float32 toy (rnd sim1) = (1 / 10, 45)"
    by (simp add: toy_def sim1_def toy_Float_def unit_draws_def Fract_of_int_quotient)
  have p: "f_lt (arith toy) (1 / 10) (CreateMinerProbability (Config sim1))"
    by (simp add: toy_def sim1_def toy_config_def rat_arith_def)
  have a: "Accounts sim1 ! length (Agents sim1) = ''a1''" by (simp add: sim1_def)
  from t l have "addMiner toy sim1 [] =
        (if f_lt (arith toy) (fst (Float32 toy (rnd sim1))) (CreateMinerProbability (Config sim1))
         then [] @ [createMiner toy sim1 (Accounts sim1 ! length (Agents sim1))
                      (newMinerConfig toy sim1)]
         else [],
         snd (Float32 toy (rnd sim1)))"
    by blast
  with d p a
  have m: "addMiner toy sim1 [] = ([createMiner toy sim1 ''a1'' (newMinerConfig toy sim1)], 45)"
    by simp
  from t have f: "From (createMiner toy sim1 ''a1'' (newMinerConfig toy sim1)) = ''a1''"
    by blast
  from t have "Value (createMiner toy sim1 ''a1'' (newMinerConfig toy sim1))
                 = AccountInitialBalance (Config sim1)"
    by blast
  then have w: "Value (createMiner toy sim1 ''a1'' (newMinerConfig toy sim1)) = 1000"
    by (simp add: sim1_def toy_config_def)
  from t toy_second_tick have acc: "Accounts sim2 = Accounts sim1" by blast
  have ag: "Agents sim2 = Agents sim1 @ [''ma1'']" by (simp add: sim1_def sim2_def)
  from l d m f w toy_second_tick acc ag show ?thesis by (intro conjI)
qed




end
